theory Spec2Isabelle
  imports Main "HOL-Library.Word"
begin

section \<open>JavaScript strings\<close>

text \<open>
  A JavaScript string is a sequence of UTF-16 code units. \<open>str\<close> turns an ASCII literal
  into such a sequence, so that \<open>str ''x-a''\<close> is the JavaScript string \<^verbatim>\<open>"x-a"\<close>.
\<close>

type_synonym cu = "16 word"
type_synonym jsstring = "cu list"

definition str :: "string \<Rightarrow> jsstring" where
  "str = map of_char"

text \<open>
  The character classes the source's regular expressions use. \<^verbatim>\<open>\s\<close> (and
  \<^verbatim>\<open>String.prototype.trim\<close>) is ECMAScript's WhiteSpace together with LineTerminator;
  \<^verbatim>\<open>.\<close> is every code unit but a LineTerminator; \<^verbatim>\<open>\w\<close> is
  \<^verbatim>\<open>[A-Za-z0-9_]\<close>.
\<close>

definition isLineTerminator :: "cu \<Rightarrow> bool" where
  "isLineTerminator c = (c = 0x000A \<or> c = 0x000D \<or> c = 0x2028 \<or> c = 0x2029)"

definition isWhiteSpace :: "cu \<Rightarrow> bool" where
  "isWhiteSpace c =
     (c = 0x0009 \<or> c = 0x000B \<or> c = 0x000C \<or> c = 0x0020 \<or> c = 0x00A0 \<or> c = 0x1680
      \<or> (0x2000 \<le> c \<and> c \<le> 0x200A) \<or> c = 0x202F \<or> c = 0x205F \<or> c = 0x3000
      \<or> c = 0xFEFF \<or> isLineTerminator c)"

definition notWhiteSpace :: "cu \<Rightarrow> bool" where
  "notWhiteSpace c = (\<not> isWhiteSpace c)"

definition isDot :: "cu \<Rightarrow> bool" where
  "isDot c = (\<not> isLineTerminator c)"

definition isLower :: "cu \<Rightarrow> bool" where
  "isLower c = (0x61 \<le> c \<and> c \<le> 0x7A)"

definition isWord :: "cu \<Rightarrow> bool" where
  "isWord c = ((0x61 \<le> c \<and> c \<le> 0x7A) \<or> (0x41 \<le> c \<and> c \<le> 0x5A)
      \<or> (0x30 \<le> c \<and> c \<le> 0x39) \<or> c = 0x5F)"

definition String_trim :: "jsstring \<Rightarrow> jsstring" where
  "String_trim s = rev (dropWhile isWhiteSpace (rev (dropWhile isWhiteSpace s)))"

section \<open>Regular expressions, as the backtracking matcher of ECMAScript runs them\<close>

text \<open>
  The fragment of the pattern language the source uses: single-character atoms (a class,
  \<^verbatim>\<open>.\<close> or a literal), concatenation, the quantifiers \<^verbatim>\<open>*\<close>, \<^verbatim>\<open>+\<close> and
  \<^verbatim>\<open>?\<close> (the flag says greedy), and capture groups.
\<close>

datatype regex =
    Eps
  | Atom "cu \<Rightarrow> bool"
  | Seq regex regex
  | Star bool regex
  | Plus bool regex
  | Opt bool regex
  | Group nat regex

type_synonym captures = "nat \<Rightarrow> jsstring option"

fun lits :: "jsstring \<Rightarrow> regex" where
  "lits [] = Eps"
| "lits (x # xs) = Seq (Atom ((=) x)) (lits xs)"

fun rank :: "regex \<Rightarrow> nat" where
  "rank Eps = 0"
| "rank (Atom P) = 0"
| "rank (Seq a b) = Suc (rank a + rank b)"
| "rank (Star g r) = Suc (rank r)"
| "rank (Plus g r) = Suc (Suc (rank r))"
| "rank (Opt g r) = Suc (rank r)"
| "rank (Group i r) = Suc (rank r)"

fun groups :: "regex \<Rightarrow> nat list" where
  "groups Eps = []"
| "groups (Atom P) = []"
| "groups (Seq a b) = groups a @ groups b"
| "groups (Star g r) = groups r"
| "groups (Plus g r) = groups r"
| "groups (Opt g r) = groups r"
| "groups (Group i r) = i # groups r"

definition reset :: "nat list \<Rightarrow> captures \<Rightarrow> captures" where
  "reset is c = (\<lambda>i. if i \<in> set is then None else c i)"

text \<open>
  \<open>ms r s c\<close> lists, in the order in which the backtracking matcher tries them, every way
  \<open>r\<close> can match a prefix of \<open>s\<close>: the rest of the input after the match and the captures.
  The head of the list is the match ECMAScript reports. A quantifier clears the captures
  of its body before each iteration, and an iteration of \<^verbatim>\<open>*\<close> or \<^verbatim>\<open>?\<close> that
  consumes nothing is rejected (RepeatMatcher, steps 2 and 3 of the language definition);
  the first iteration of \<^verbatim>\<open>+\<close> is mandatory and may be empty.
\<close>

function ms :: "regex \<Rightarrow> jsstring \<Rightarrow> captures \<Rightarrow> (jsstring \<times> captures) list" where
  "ms Eps s c = [(s, c)]"
| "ms (Atom P) s c = (case s of [] \<Rightarrow> [] | x # xs \<Rightarrow> if P x then [(xs, c)] else [])"
| "ms (Seq a b) s c = concat (map (\<lambda>(s1, c1). ms b s1 c1) (ms a s c))"
| "ms (Group i r) s c =
     map (\<lambda>(s1, c1). (s1, c1(i \<mapsto> take (length s - length s1) s))) (ms r s c)"
| "ms (Star g r) s c =
     (let more = concat (map (\<lambda>(s1, c1). if length s1 < length s then ms (Star g r) s1 c1 else [])
                    (ms r s (reset (groups r) c)))
      in if g then more @ [(s, c)] else (s, c) # more)"
| "ms (Plus g r) s c =
     concat (map (\<lambda>(s1, c1). ms (Star g r) s1 c1) (ms r s (reset (groups r) c)))"
| "ms (Opt g r) s c =
     (let one = filter (\<lambda>(s1, c1). length s1 < length s) (ms r s (reset (groups r) c))
      in if g then one @ [(s, c)] else (s, c) # one)"
  by pat_completeness auto
termination
  by (relation "measures [\<lambda>(r, s, c). rank r, \<lambda>(r, s, c). length s]") auto

text \<open>
  \<^verbatim>\<open>String.prototype.match\<close> with a pattern that has no \<^verbatim>\<open>g\<close> flag
  (RegExpBuiltinExec): the match is tried at index 0, then at 1, and so on up to the length
  of the string; the first index with a match gives the result, here its captures.
\<close>

fun RegExp_exec :: "regex \<Rightarrow> jsstring \<Rightarrow> captures option" where
  "RegExp_exec r [] = (case ms r [] (\<lambda>_. None) of [] \<Rightarrow> None | (_, c) # _ \<Rightarrow> Some c)"
| "RegExp_exec r (x # xs) =
     (case ms r (x # xs) (\<lambda>_. None) of [] \<Rightarrow> RegExp_exec r xs | (_, c) # _ \<Rightarrow> Some c)"

text \<open>
  \<^verbatim>\<open>String.prototype.split\<close> with a pattern as separator (RegExp.prototype[@@split]).
  \<open>matchAt r s\<close> is the length of the match of \<open>r\<close> anchored at the start of \<open>s\<close>. In
  \<open>splitLoop r cur rest\<close>, \<open>cur\<close> is the piece read since the last separator (from index
  \<open>p\<close> to index \<open>q\<close> of the language definition) and \<open>rest\<close> the input from \<open>q\<close> on: no
  match at \<open>q\<close>, or an empty match at \<open>q = p\<close>, moves \<open>q\<close> one code unit on; a match closes
  the piece and goes on behind the separator. The separators of the source capture
  nothing, so no capture is spliced into the result, and the default limit of
  \<open>2^32 - 1\<close> pieces is beyond every string an engine holds.
\<close>

definition matchAt :: "regex \<Rightarrow> jsstring \<Rightarrow> nat option" where
  "matchAt r s =
     (case ms r s (\<lambda>_. None) of [] \<Rightarrow> None | (s1, _) # _ \<Rightarrow> Some (length s - length s1))"

function splitLoop :: "regex \<Rightarrow> jsstring \<Rightarrow> jsstring \<Rightarrow> jsstring list" where
  "splitLoop r cur [] = [cur]"
| "splitLoop r cur (x # xs) =
     (case matchAt r (x # xs) of
        None \<Rightarrow> splitLoop r (cur @ [x]) xs
      | Some n \<Rightarrow>
          if n = 0 \<and> cur = [] then splitLoop r (cur @ [x]) xs
          else cur # splitLoop r [] (drop n (x # xs)))"
  by pat_completeness auto
termination
  by (relation "measure (\<lambda>(r, cur, rest). 2 * length rest + (if cur = [] then 0 else 1))") auto

definition String_split :: "regex \<Rightarrow> jsstring \<Rightarrow> jsstring list" where
  "String_split r s =
     (if s = [] then (if matchAt r [] = None then [s] else []) else splitLoop r [] s)"

section \<open>Attribute grammar parser and selector pattern matcher\<close>

text \<open>
  \<^verbatim>\<open>function parsePartAttribute(attr) {
    if (!attr) { return []; }
    return attr.trim().split(/\s+/);
  }\<close>
  The argument is a string or \<^verbatim>\<open>null\<close>; \<^verbatim>\<open>!attr\<close> holds of \<^verbatim>\<open>null\<close> and of
  the empty string.
\<close>

definition parsePartAttribute :: "jsstring option \<Rightarrow> jsstring list" where
  "parsePartAttribute attr =
     (case attr of
        None \<Rightarrow> []
      | Some a \<Rightarrow> if a = [] then [] else String_split (Plus True (Atom isWhiteSpace)) (String_trim a))"

record exportPart =
  inner :: jsstring
  outer :: jsstring

text \<open>The separators \<^verbatim>\<open>/\s*,\s*/\<close> and \<^verbatim>\<open>/\s*:\s*/\<close>.\<close>

definition sepRegex :: "jsstring \<Rightarrow> regex" where
  "sepRegex x = Seq (Star True (Atom isWhiteSpace)) (Seq (lits x) (Star True (Atom isWhiteSpace)))"

text \<open>
  The loop of \<^verbatim>\<open>parseExportPartsAttribute\<close> over the comma-separated tokens, with the
  array \<^verbatim>\<open>parts\<close> as accumulator; a token that splits into neither one nor two pieces
  takes the \<^verbatim>\<open>continue\<close>.
\<close>

fun exportPartsLoop :: "jsstring list \<Rightarrow> exportPart list \<Rightarrow> exportPart list" where
  "exportPartsLoop [] parts = parts"
| "exportPartsLoop (part # rest) parts =
     (case String_split (sepRegex (str '':'')) part of
        [a] \<Rightarrow> exportPartsLoop rest (parts @ [\<lparr>inner = a, outer = a\<rparr>])
      | [a, b] \<Rightarrow> exportPartsLoop rest (parts @ [\<lparr>inner = a, outer = b\<rparr>])
      | _ \<Rightarrow> exportPartsLoop rest parts)"

definition parseExportPartsAttribute :: "jsstring option \<Rightarrow> exportPart list" where
  "parseExportPartsAttribute attr =
     (case attr of
        None \<Rightarrow> []
      | Some a \<Rightarrow> if a = [] then [] else exportPartsLoop (String_split (sepRegex (str '','')) a) [])"

text \<open>
  \<^verbatim>\<open>const PART_REGEX = /(.*?)([a-z]+-\w+)([^\s]*?)::part\((.*)?\)/;\<close>
\<close>

definition PART_REGEX :: regex where
  "PART_REGEX =
     Seq (Group 1 (Star False (Atom isDot)))
    (Seq (Group 2 (Seq (Plus True (Atom isLower)) (Seq (lits (str ''-'')) (Plus True (Atom isWord)))))
    (Seq (Group 3 (Star False (Atom notWhiteSpace)))
    (Seq (lits (str ''::part(''))
    (Seq (Opt True (Group 4 (Star True (Atom isDot))))
         (lits (str '')''))))))"

text \<open>
  The result of \<^verbatim>\<open>parsePartSelector\<close>: the four captures of the match, each a string
  or \<^verbatim>\<open>undefined\<close> (a group that took no part in the match).
\<close>

record partSelector =
  pre :: "jsstring option"
  ce :: "jsstring option"
  post :: "jsstring option"
  partList :: "jsstring option"

definition parsePartSelector :: "jsstring \<Rightarrow> partSelector option" where
  "parsePartSelector selector =
     (case RegExp_exec PART_REGEX selector of
        None \<Rightarrow> None
      | Some m \<Rightarrow> Some \<lparr>pre = m 1, ce = m 2, post = m 3, partList = m 4\<rparr>)"

definition formatPartSpecifier :: "jsstring \<Rightarrow> jsstring \<Rightarrow> jsstring \<Rightarrow> jsstring" where
  "formatPartSpecifier partName' scope' hostScope' =
     hostScope' @ str ''_'' @ scope' @ str ''_'' @ partName'"

section \<open>The DOM, the module state and the collaborators\<close>

text \<open>
  The source reaches the DOM through a handful of primitives only: \<^verbatim>\<open>getRootNode()\<close>,
  \<^verbatim>\<open>host\<close>, \<^verbatim>\<open>shadowRoot\<close>, \<^verbatim>\<open>localName\<close>, \<^verbatim>\<open>querySelectorAll\<close> with an
  attribute-presence selector, and getting, setting and removing an attribute. The state
  holds one observer for each. Nodes (the document, elements, shadow roots) are
  references; \<open>host\<close> is defined on shadow roots and \<^verbatim>\<open>undefined\<close> elsewhere;
  \<open>descendants n\<close> lists the elements below \<open>n\<close> in tree order, without entering the
  shadow trees of nested hosts, which is the range of \<^verbatim>\<open>n.querySelectorAll\<close>.

  Beside the DOM the state holds the three module-level variables of the source
  (\<^verbatim>\<open>partRuleCustomProperties\<close>, \<^verbatim>\<open>partCache\<close>, \<^verbatim>\<open>partNumber\<close>) and the
  collaborators that are imported from other modules.

  A property read from \<^verbatim>\<open>undefined\<close> throws a \<^verbatim>\<open>TypeError\<close>, and so does the call
  of a value that is no function and the iteration over a value that is not iterable; the
  operations that can meet one return a \<open>result\<close>. The \<^verbatim>\<open>TypeError\<close> of an operation
  that writes to the DOM comes with the state that the writes before the throw have left.
\<close>

type_synonym ref = nat

datatype ('a, 's) result = Ok 'a | TypeError 's

record rule =
  selector :: jsstring
  cssText :: jsstring

type_synonym properties = "jsstring \<Rightarrow> jsstring option"

record styleInfo =
  styleProperties :: properties
  ownStylePropertyNames :: "jsstring list"

record cacheEntry =
  properties :: properties
  styleElement :: "ref option"
  scopeSelector :: jsstring

type_synonym StyleCache = "jsstring \<Rightarrow> cacheEntry list"

text \<open>
  Modelled from the spec: \<^verbatim>\<open>StyleInfo.get\<close> (style-info.js),
  \<^verbatim>\<open>StyleProperties.applyProperties\<close> (style-properties.js) and \<^verbatim>\<open>applyCss\<close>
  (style-util.js) are imported by the source and are not part of it. The spec (section 6)
  has the cascade expose, per host, a live table of resolved custom-property values and
  the property names of the host's own scope (\<open>StyleInfo_get\<close>); has
  \<^verbatim>\<open>applyProperties\<close> annotate a rule with the values of a table (any function
  \<open>applyProperties\<close> from a rule and a table to the rule it leaves); and has the style
  injection insert a new style node with the finished CSS text into the document
  (\<open>injectedCss\<close> collects the texts; the new node is no element of any shadow tree and
  carries no \<^verbatim>\<open>part\<close> attribute).
\<close>

record state =
  document :: ref
  rootNode :: "ref \<Rightarrow> ref"
  host :: "ref \<Rightarrow> ref option"
  shadowRoot :: "ref \<Rightarrow> ref option"
  localName :: "ref \<Rightarrow> jsstring"
  descendants :: "ref \<Rightarrow> ref list"
  attributes :: "ref \<Rightarrow> jsstring \<Rightarrow> jsstring option"
  partRuleCustomProperties :: "jsstring \<Rightarrow> rule list option"
  partCache :: StyleCache
  partNumber :: nat
  StyleInfo_get :: "ref \<Rightarrow> styleInfo"
  applyProperties :: "rule \<Rightarrow> properties \<Rightarrow> rule"
  injectedCss :: "jsstring list"

definition getAttribute :: "state \<Rightarrow> ref \<Rightarrow> jsstring \<Rightarrow> jsstring option" where
  "getAttribute s e name = attributes s e name"

definition setAttribute :: "state \<Rightarrow> ref \<Rightarrow> jsstring \<Rightarrow> jsstring \<Rightarrow> state" where
  "setAttribute s e name v = s\<lparr>attributes := (attributes s)(e := (attributes s e)(name \<mapsto> v))\<rparr>"

definition removeAttribute :: "state \<Rightarrow> ref \<Rightarrow> jsstring \<Rightarrow> state" where
  "removeAttribute s e name = s\<lparr>attributes := (attributes s)(e := (attributes s e)(name := None))\<rparr>"

text \<open>\<^verbatim>\<open>root.querySelectorAll('[name]')\<close>: a static list, in tree order.\<close>

definition querySelectorAll :: "state \<Rightarrow> ref \<Rightarrow> jsstring \<Rightarrow> ref list" where
  "querySelectorAll s root name = filter (\<lambda>e. attributes s e name \<noteq> None) (descendants s root)"

text \<open>
  Modelled from the spec: the class \<^verbatim>\<open>StyleCache\<close> (style-cache.js) is imported by the
  source and is not part of it. The spec (sections 3, 4.6 and 6) describes a fingerprinted
  cache: an id is stored under a key against the resolved custom-property values, the
  fingerprint of a lookup is made of the live values and the property names visible to
  the scope, a hit returns the stored entry, entries are never invalidated. Here an entry
  of the key is a hit when its stored values agree with the live ones at every visible
  name, and the entry stored last is looked at first.
\<close>

definition StyleCache_fetch ::
  "StyleCache \<Rightarrow> jsstring \<Rightarrow> properties \<Rightarrow> jsstring list \<Rightarrow> cacheEntry option" where
  "StyleCache_fetch c key props names =
     find (\<lambda>e. list_all (\<lambda>n. properties e n = props n) names) (rev (c key))"

definition StyleCache_store ::
  "StyleCache \<Rightarrow> jsstring \<Rightarrow> properties \<Rightarrow> ref option \<Rightarrow> jsstring \<Rightarrow> StyleCache" where
  "StyleCache_store c key props el sel =
     c(key := c key @ [\<lparr>properties = props, styleElement = el, scopeSelector = sel\<rparr>])"

text \<open>
  \<^verbatim>\<open>String(partNumber++)\<close>. The counter is a Number holding an integer: adding one is
  exact below \<open>2^53\<close>, and at \<open>2^53\<close> the sum rounds back to \<open>2^53\<close>. \<^verbatim>\<open>String\<close> of
  such an integer is its decimal numeral.
\<close>

fun String_of_nat :: "nat \<Rightarrow> jsstring" where
  "String_of_nat n =
     (case n < 10 of
        True \<Rightarrow> [0x30 + of_nat n]
      | False \<Rightarrow> String_of_nat (n div 10) @ [0x30 + of_nat (n mod 10)])"

declare String_of_nat.simps [simp del]

definition postIncrement :: "nat \<Rightarrow> nat" where
  "postIncrement n = (if int n < 2 ^ 53 then n + 1 else n)"

text \<open>
  A \<^verbatim>\<open>for (const x of xs) { ... }\<close> loop over an array, with a body that writes to the
  DOM: a throw in the body leaves the loop.
\<close>

fun forEach :: "('a \<Rightarrow> state \<Rightarrow> (state, state) result) \<Rightarrow> 'a list \<Rightarrow> state \<Rightarrow> (state, state) result" where
  "forEach body [] s = Ok s"
| "forEach body (x # xs) s =
     (case body x s of
        Ok s1 \<Rightarrow> forEach body xs s1
      | TypeError s1 \<Rightarrow> TypeError s1)"

section \<open>Specifiers on elements\<close>

definition addPartSpecifier :: "state \<Rightarrow> ref \<Rightarrow> jsstring \<Rightarrow> state" where
  "addPartSpecifier s element specifier =
     (case getAttribute s element (str ''shady-part'') of
        None \<Rightarrow> setAttribute s element (str ''shady-part'') specifier
      | Some existing \<Rightarrow>
          setAttribute s element (str ''shady-part'') (existing @ str '' '' @ specifier))"

definition removeAllPartSpecifiers :: "state \<Rightarrow> ref \<Rightarrow> state" where
  "removeAllPartSpecifiers s element = removeAttribute s element (str ''shady-part'')"

text \<open>\<^verbatim>\<open>scopeForRoot\<close>; \<open>None\<close> is the \<^verbatim>\<open>undefined\<close> of the path without return.\<close>

definition scopeForRoot :: "state \<Rightarrow> ref \<Rightarrow> jsstring option" where
  "scopeForRoot s root =
     (if root = document s then Some (str ''document'')
      else case host s root of Some h \<Rightarrow> Some (localName s h) | None \<Rightarrow> None)"

section \<open>Scope identity cache and part rule registry\<close>

definition getPartId ::
  "state \<Rightarrow> jsstring \<Rightarrow> jsstring \<Rightarrow> jsstring \<Rightarrow> styleInfo \<Rightarrow> jsstring \<times> state" where
  "getPartId s partName' parentScope childScope info =
     (let key = partName' @ str '':'' @ parentScope @ str '':'' @ childScope in
      case StyleCache_fetch (partCache s) key (styleProperties info) (ownStylePropertyNames info) of
        Some entry \<Rightarrow> (scopeSelector entry, s)
      | None \<Rightarrow>
          let id = String_of_nat (partNumber s) in
          let s1 = s\<lparr>partNumber := postIncrement (partNumber s)\<rparr>
          in (id, s1\<lparr>partCache :=
                      StyleCache_store (partCache s1) key (styleProperties info) None id\<rparr>))"

definition customPropertyRulesForPart ::
  "state \<Rightarrow> jsstring \<Rightarrow> jsstring \<Rightarrow> jsstring \<Rightarrow> rule list" where
  "customPropertyRulesForPart s parentScope childScope partName' =
     (let key = parentScope @ str '':'' @ childScope @ str '':'' @ partName' in
      case partRuleCustomProperties s key of None \<Rightarrow> [] | Some props \<Rightarrow> props)"

text \<open>
  The loop of \<^verbatim>\<open>scopeAllHostParts\<close> over the custom-property rules of a part:
  \<^verbatim>\<open>applyProperties\<close> rewrites each rule in place (the rules are the objects held by
  the registry, so the registry sees the rewritten rules), and the rule text, with
  \<^verbatim>\<open>_partId\<close> put before the first \<^verbatim>\<open>]\<close> of its selector, goes to
  \<^verbatim>\<open>applyCss\<close>. Part ids are decimal numerals, so the replacement text of
  \<^verbatim>\<open>String.prototype.replace\<close> has no \<^verbatim>\<open>$\<close> pattern.
\<close>

fun replaceFirst :: "cu \<Rightarrow> jsstring \<Rightarrow> jsstring \<Rightarrow> jsstring" where
  "replaceFirst c new [] = []"
| "replaceFirst c new (x # xs) = (if x = c then new @ xs else x # replaceFirst c new xs)"

definition applyPartRules ::
  "state \<Rightarrow> jsstring \<Rightarrow> jsstring \<Rightarrow> jsstring \<Rightarrow> jsstring \<Rightarrow> styleInfo \<Rightarrow> state" where
  "applyPartRules s parentScope childScope partName' partId info =
     (let key = parentScope @ str '':'' @ childScope @ str '':'' @ partName' in
      let rules = map (\<lambda>r. applyProperties s r (styleProperties info))
                   (customPropertyRulesForPart s parentScope childScope partName')
      in s\<lparr>partRuleCustomProperties := (partRuleCustomProperties s)(key \<mapsto> rules),
           injectedCss := injectedCss s @
             map (\<lambda>r. replaceFirst 0x5D (str ''_'' @ partId @ str '']'') (selector r)
                        @ str '' { '' @ cssText r @ str '' }'') rules\<rparr>)"

section \<open>Export-parts resolver\<close>

record exportEntry =
  partName :: jsstring
  scope :: jsstring
  hostScope :: jsstring

text \<open>
  The object \<^verbatim>\<open>map\<close> of \<^verbatim>\<open>getExportPartsMap\<close> is a plain object
  (\<^verbatim>\<open>const map = {}\<close>). An \<open>exportPartsMap\<close> holds its own properties, which the source
  creates at part names. A read \<^verbatim>\<open>map[name]\<close> finds an own property first and then the
  properties the object inherits from \<^verbatim>\<open>Object.prototype\<close>: the value of an inherited
  one is a function (for \<^verbatim>\<open>__proto__\<close> the prototype object itself), which is not
  \<^verbatim>\<open>undefined\<close>, has no \<^verbatim>\<open>push\<close> and is not iterable. \<open>Object_prototype\<close> lists the
  properties that the language definition (with its annex B) gives \<^verbatim>\<open>Object.prototype\<close>.
\<close>

type_synonym exportPartsMap = "jsstring \<Rightarrow> exportEntry list option"

definition Object_prototype :: "jsstring list" where
  "Object_prototype =
     [str ''constructor'', str ''hasOwnProperty'', str ''isPrototypeOf'',
      str ''propertyIsEnumerable'', str ''toLocaleString'', str ''toString'', str ''valueOf'',
      str ''__proto__'', str ''__defineGetter__'', str ''__defineSetter__'',
      str ''__lookupGetter__'', str ''__lookupSetter__'']"

datatype 'a property = Undefined | Own 'a | Inherited

definition getProperty :: "exportPartsMap \<Rightarrow> jsstring \<Rightarrow> exportEntry list property" where
  "getProperty m name =
     (case m name of
        Some v \<Rightarrow> Own v
      | None \<Rightarrow> if name \<in> set Object_prototype then Inherited else Undefined)"

text \<open>
  The loop of \<^verbatim>\<open>getExportPartsMap\<close> over the pairs of the host's own attribute:
  \<open>arr\<close> is the array of \<^verbatim>\<open>map[inner]\<close>, created empty when the read gives
  \<^verbatim>\<open>undefined\<close>, and receives the local entry and then the entries of
  \<^verbatim>\<open>superExports[outer]\<close>. At an inherited property \<^verbatim>\<open>arr.push\<close> is no function, and
  \<^verbatim>\<open>for (const partData of superParts)\<close> meets a value that is not iterable: both throw.
\<close>

fun exportPartsMapLoop ::
  "jsstring \<Rightarrow> jsstring \<Rightarrow> exportPartsMap \<Rightarrow> exportPart list \<Rightarrow> exportPartsMap
     \<Rightarrow> (exportPartsMap, unit) result"
where
  "exportPartsMapLoop hs sc superExports [] m = Ok m"
| "exportPartsMapLoop hs sc superExports (p # ps) m =
     (case (case getProperty m (inner p) of
              Undefined \<Rightarrow> Ok []
            | Own a \<Rightarrow> Ok a
            | Inherited \<Rightarrow> TypeError ()) of
        TypeError u \<Rightarrow> TypeError u
      | Ok arr \<Rightarrow>
          let arr1 = arr @ [\<lparr>partName = outer p, scope = sc, hostScope = hs\<rparr>] in
          case getProperty superExports (outer p) of
            Undefined \<Rightarrow> exportPartsMapLoop hs sc superExports ps (m(inner p \<mapsto> arr1))
          | Own superParts \<Rightarrow>
              exportPartsMapLoop hs sc superExports ps (m(inner p \<mapsto> arr1 @ superParts))
          | Inherited \<Rightarrow> TypeError ())"

text \<open>
  \<^verbatim>\<open>getExportPartsMap\<close> calls itself on the host of the host's root. The value \<open>None\<close>
  stands for a recursion that does not return.
\<close>

partial_function (option) getExportPartsMap ::
  "state \<Rightarrow> ref \<Rightarrow> (exportPartsMap, unit) result option"
where
  "getExportPartsMap s h =
     (case getAttribute s h (str ''exportparts'') of
        None \<Rightarrow> Some (Ok Map.empty)
      | Some attr \<Rightarrow>
          let root = rootNode s h in
          if root = document s then Some (Ok Map.empty)
          else case host s root of
            None \<Rightarrow> Some (TypeError ())
          | Some superHost \<Rightarrow>
              let sc = localName s superHost in
              let superRoot = rootNode s superHost in
              case scopeForRoot s superRoot of
                None \<Rightarrow> Some (Ok Map.empty)
              | Some hs \<Rightarrow>
                  Option.bind (getExportPartsMap s superHost) (\<lambda>r.
                    case r of
                      TypeError u \<Rightarrow> Some (TypeError u)
                    | Ok superExports \<Rightarrow>
                        Some (exportPartsMapLoop hs sc superExports
                                (parseExportPartsAttribute (Some attr)) Map.empty)))"

declare getExportPartsMap.simps [code]

section \<open>Tree scoper and mutation handlers\<close>

text \<open>
  The loop over \<^verbatim>\<open>exportPartsMap[partName]\<close>, when that is not \<^verbatim>\<open>undefined\<close>; at an
  inherited property the \<^verbatim>\<open>for\<close>-\<^verbatim>\<open>of\<close> meets a value that is not iterable.
\<close>

definition addExportedSpecifiers ::
  "exportPartsMap \<Rightarrow> ref \<Rightarrow> jsstring \<Rightarrow> state \<Rightarrow> (state, state) result" where
  "addExportedSpecifiers exportPartsMap' element partName' s =
     (case getProperty exportPartsMap' partName' of
        Undefined \<Rightarrow> Ok s
      | Own exportParts \<Rightarrow>
          Ok (fold (\<lambda>e st. addPartSpecifier st element
                              (formatPartSpecifier (partName e) (scope e) (hostScope e)))
                exportParts s)
      | Inherited \<Rightarrow> TypeError s)"

text \<open>The body of the loop of \<^verbatim>\<open>scopeAllHostParts\<close> over the part names of a node.\<close>

definition scopePartName ::
  "ref \<Rightarrow> jsstring \<Rightarrow> jsstring \<Rightarrow> exportPartsMap \<Rightarrow> ref \<Rightarrow> jsstring \<Rightarrow> state
     \<Rightarrow> (state, state) result" where
  "scopePartName h hs sc exportPartsMap' partNode partName' s =
     (let customPropertyRules = customPropertyRulesForPart s hs sc partName' in
      let s1 =
        (if 0 < length customPropertyRules then
           let info = StyleInfo_get s h in
           case getPartId s partName' hs sc info of
             (partId, sa) \<Rightarrow>
               addPartSpecifier (applyPartRules sa hs sc partName' partId info) partNode
                 (formatPartSpecifier (partName' @ str ''_'' @ partId) sc hs)
         else addPartSpecifier s partNode (formatPartSpecifier partName' sc hs))
      in addExportedSpecifiers exportPartsMap' partNode partName' s1)"

text \<open>The body of the loop of \<^verbatim>\<open>scopeAllHostParts\<close> over the part nodes.\<close>

definition scopePartNode ::
  "ref \<Rightarrow> jsstring \<Rightarrow> jsstring \<Rightarrow> exportPartsMap \<Rightarrow> ref \<Rightarrow> state \<Rightarrow> (state, state) result" where
  "scopePartNode h hs sc exportPartsMap' partNode s =
     (let s1 = removeAllPartSpecifiers s partNode in
      let partAttr = getAttribute s1 partNode (str ''part'')
      in forEach (scopePartName h hs sc exportPartsMap' partNode) (parsePartAttribute partAttr) s1)"

definition scopeAllHostParts :: "state \<Rightarrow> ref \<Rightarrow> (state, state) result option" where
  "scopeAllHostParts s h =
     (case shadowRoot s h of
        None \<Rightarrow> Some (Ok s)
      | Some sr \<Rightarrow>
          let partNodes = querySelectorAll s sr (str ''part'') in
          if length partNodes = 0 then Some (Ok s)
          else
            let root = rootNode s h in
            case scopeForRoot s root of
              None \<Rightarrow> Some (Ok s)
            | Some hs \<Rightarrow>
                let sc = localName s h in
                case getExportPartsMap s h of
                  None \<Rightarrow> None
                | Some (TypeError u) \<Rightarrow> Some (TypeError s)
                | Some (Ok exportPartsMap') \<Rightarrow>
                    Some (forEach (scopePartNode h hs sc exportPartsMap') partNodes s))"

text \<open>
  \<^verbatim>\<open>addPartSpecifiersToElement\<close>: \<^verbatim>\<open>root.host\<close> and \<^verbatim>\<open>superRoot.host\<close> are read
  without a check, and \<^verbatim>\<open>localName\<close> of \<^verbatim>\<open>undefined\<close> throws.
\<close>

definition addPartSpecifiersToElement ::
  "state \<Rightarrow> ref \<Rightarrow> jsstring list \<Rightarrow> (state, state) result option" where
  "addPartSpecifiersToElement s element partNames =
     (let root = rootNode s element in
      if root = element \<or> root = document s then Some (Ok s)
      else case host s root of
        None \<Rightarrow> Some (TypeError s)
      | Some h \<Rightarrow>
          let sc = localName s h in
          let superRoot = rootNode s h in
          case (if superRoot = document s then Ok (str ''document'')
                else case host s superRoot of
                       None \<Rightarrow> TypeError ()
                     | Some sh \<Rightarrow> Ok (localName s sh)) of
            TypeError u \<Rightarrow> Some (TypeError s)
          | Ok superScope \<Rightarrow>
              (case getExportPartsMap s h of
                 None \<Rightarrow> None
               | Some (TypeError u) \<Rightarrow> Some (TypeError s)
               | Some (Ok exportPartsMap') \<Rightarrow>
                   Some (forEach (\<lambda>partName' st.
                       addExportedSpecifiers exportPartsMap' element partName'
                         (addPartSpecifier st element
                            (formatPartSpecifier partName' sc superScope)))
                     partNames s)))"

text \<open>\<^verbatim>\<open>!newValue\<close> holds of \<^verbatim>\<open>null\<close> and of the empty string.\<close>

definition onPartAttributeChanged ::
  "state \<Rightarrow> ref \<Rightarrow> jsstring option \<Rightarrow> jsstring option \<Rightarrow> (state, state) result option" where
  "onPartAttributeChanged s element oldValue newValue =
     (if newValue = None \<or> newValue = Some [] then Some (Ok (removeAllPartSpecifiers s element))
      else addPartSpecifiersToElement s element (parsePartAttribute newValue))"

text \<open>The value of an attribute after an operation that returned.\<close>

definition attributeAfter :: "(state, state) result option \<Rightarrow> ref \<Rightarrow> jsstring \<Rightarrow> jsstring option option" where
  "attributeAfter r e name =
     (case r of Some (Ok s) \<Rightarrow> Some (getAttribute s e name) | _ \<Rightarrow> None)"

section \<open>The worked example of the source's header\<close>

text \<open>
  The document (node 0) holds \<^verbatim>\<open><x-a>\<close> (1), whose shadow root (2) holds
  \<^verbatim>\<open><div part="a1">\<close> (3) and \<^verbatim>\<open><x-b exportparts="b1:a2,b2:a3">\<close> (4), whose shadow
  root (5) holds \<^verbatim>\<open><div part="b1">\<close> (6) and \<^verbatim>\<open><x-c exportparts="c1:b2">\<close> (7),
  whose shadow root (8) holds \<^verbatim>\<open><div part="c1">\<close> (9). The rules of the example use
  no custom property, so the registry is empty.
\<close>

definition example_attributes :: "ref \<Rightarrow> jsstring \<Rightarrow> jsstring option" where
  "example_attributes =
     (\<lambda>e. Map.empty)
       (3 := [str ''part'' \<mapsto> str ''a1''],
        4 := [str ''exportparts'' \<mapsto> str ''b1:a2,b2:a3''],
        6 := [str ''part'' \<mapsto> str ''b1''],
        7 := [str ''exportparts'' \<mapsto> str ''c1:b2''],
        9 := [str ''part'' \<mapsto> str ''c1''])"

definition example :: state where
  "example =
     \<lparr>document = 0,
      rootNode = (\<lambda>n. n)(1 := 0, 3 := 2, 4 := 2, 6 := 5, 7 := 5, 9 := 8),
      host = Map.empty(2 \<mapsto> 1, 5 \<mapsto> 4, 8 \<mapsto> 7),
      shadowRoot = Map.empty(1 \<mapsto> 2, 4 \<mapsto> 5, 7 \<mapsto> 8),
      localName = (\<lambda>n. str ''div'')(1 := str ''x-a'', 4 := str ''x-b'', 7 := str ''x-c''),
      descendants = (\<lambda>n. [])(0 := [1], 2 := [3, 4], 5 := [6, 7], 8 := [9]),
      attributes = example_attributes,
      partRuleCustomProperties = Map.empty,
      partCache = (\<lambda>k. []),
      partNumber = 0,
      StyleInfo_get = (\<lambda>n. \<lparr>styleProperties = Map.empty, ownStylePropertyNames = []\<rparr>),
      applyProperties = (\<lambda>r p. r),
      injectedCss = []\<rparr>"

text \<open>\<^verbatim>\<open>scopeAllHostParts\<close> on \<^verbatim>\<open>x-c\<close>, then on \<^verbatim>\<open>x-b\<close>, then on \<^verbatim>\<open>x-a\<close>.\<close>

definition bottomUp :: "state \<Rightarrow> (state, state) result option" where
  "bottomUp s =
     (case scopeAllHostParts s 7 of
        Some (Ok s1) \<Rightarrow>
          (case scopeAllHostParts s1 4 of
             Some (Ok s2) \<Rightarrow> scopeAllHostParts s2 1
           | r \<Rightarrow> r)
      | r \<Rightarrow> r)"

text \<open>
  The same tree with \<^verbatim>\<open><x-a>\<close> not inserted into the document: the root of
  \<^verbatim>\<open><x-a>\<close> is the element itself.
\<close>

definition detached :: state where
  "detached = example\<lparr>rootNode := (rootNode example)(1 := 1)\<rparr>"

text \<open>
  The \<^verbatim>\<open>part\<close> attribute of node 3 changes from \<^verbatim>\<open>a1\<close> to \<^verbatim>\<open>a2\<close> after
  \<^verbatim>\<open>x-a\<close> has been scoped; the attribute callback runs \<^verbatim>\<open>onPartAttributeChanged\<close>
  (\<open>partChanged\<close>), where a rescope of the host would run \<^verbatim>\<open>scopeAllHostParts\<close>
  (\<open>partChangedRescoped\<close>).
\<close>

definition partChanged :: "state \<Rightarrow> (state, state) result option" where
  "partChanged s =
     (case scopeAllHostParts s 1 of
        Some (Ok s1) \<Rightarrow>
          onPartAttributeChanged (setAttribute s1 3 (str ''part'') (str ''a2'')) 3
            (Some (str ''a1'')) (Some (str ''a2''))
      | r \<Rightarrow> r)"

definition partChangedRescoped :: "state \<Rightarrow> (state, state) result option" where
  "partChangedRescoped s =
     (case scopeAllHostParts s 1 of
        Some (Ok s1) \<Rightarrow> scopeAllHostParts (setAttribute s1 3 (str ''part'') (str ''a2'')) 1
      | r \<Rightarrow> r)"

text \<open>The entries of a part name in the map an operation returned.\<close>

definition exportEntriesAfter :: "(exportPartsMap, unit) result option \<Rightarrow> jsstring \<Rightarrow> exportEntry list option option" where
  "exportEntriesAfter r k = (case r of Some (Ok m) \<Rightarrow> Some (m k) | _ \<Rightarrow> None)"

section \<open>Definitions that follow the words of the specification\<close>

text \<open>
  The entry list of a part name \<open>k\<close>, as section 4.5 of the specification words it: each
  locally declared pair with inner name \<open>k\<close> gives the entry of its outer name and then,
  when the outer name is a key of the super-host's map, the entries found there.
\<close>

definition exportedEntries ::
  "jsstring \<Rightarrow> jsstring \<Rightarrow> exportPartsMap \<Rightarrow> exportPart list \<Rightarrow> jsstring \<Rightarrow> exportEntry list option" where
  "exportedEntries hs sc superExports pairs k =
     (let declared = filter (\<lambda>p. inner p = k) pairs in
      if declared = [] then None
      else Some (concat (map (\<lambda>p. \<lparr>partName = outer p, scope = sc, hostScope = hs\<rparr>
                                  # (case superExports (outer p) of None \<Rightarrow> [] | Some es \<Rightarrow> es))
                          declared)))"

section \<open>Runs of the scope identity cache\<close>



definition redInfo :: styleInfo where
  "redInfo = \<lparr>styleProperties = [str ''--c'' \<mapsto> str ''red''], ownStylePropertyNames = [str ''--c'']\<rparr>"




section \<open>The scoping of a host, read off the attributes\<close>

text \<open>
  \<^verbatim>\<open>scopeAllHostParts\<close> rebuilds the \<^verbatim>\<open>shady-part\<close> attribute of a part node from
  nothing. The value it builds, as a function of the node's \<^verbatim>\<open>part\<close> attribute: each
  part name appends its own specifier (with the part id behind the name when the registry
  has rules for it) and then the specifiers it is exported under. \<open>rescoped\<close> writes that
  value to every part node.
\<close>

definition appendSpecifier :: "jsstring option \<Rightarrow> jsstring \<Rightarrow> jsstring option" where
  "appendSpecifier v x =
     (case v of None \<Rightarrow> Some x | Some existing \<Rightarrow> Some (existing @ str '' '' @ x))"

definition exportedValue :: "exportPartsMap \<Rightarrow> jsstring \<Rightarrow> jsstring option \<Rightarrow> jsstring option" where
  "exportedValue m pn v =
     (case m pn of
        None \<Rightarrow> v
      | Some es \<Rightarrow>
          fold (\<lambda>e w. appendSpecifier w (formatPartSpecifier (partName e) (scope e) (hostScope e))) es v)"

definition nameValue ::
  "(jsstring \<Rightarrow> bool) \<Rightarrow> (jsstring \<Rightarrow> jsstring) \<Rightarrow> jsstring \<Rightarrow> jsstring \<Rightarrow> exportPartsMap
     \<Rightarrow> jsstring \<Rightarrow> jsstring option \<Rightarrow> jsstring option" where
  "nameValue hasRules idOf hs sc m pn v =
     exportedValue m pn
       (appendSpecifier v
          (formatPartSpecifier (if hasRules pn then pn @ str ''_'' @ idOf pn else pn) sc hs))"

definition nodeValue ::
  "(jsstring \<Rightarrow> bool) \<Rightarrow> (jsstring \<Rightarrow> jsstring) \<Rightarrow> jsstring \<Rightarrow> jsstring \<Rightarrow> exportPartsMap
     \<Rightarrow> jsstring option \<Rightarrow> jsstring option" where
  "nodeValue hasRules idOf hs sc m partAttr =
     fold (nameValue hasRules idOf hs sc m) (parsePartAttribute partAttr) None"

definition setShadyPart ::
  "(ref \<Rightarrow> jsstring \<Rightarrow> jsstring option) \<Rightarrow> ref \<Rightarrow> jsstring option \<Rightarrow> ref \<Rightarrow> jsstring \<Rightarrow> jsstring option" where
  "setShadyPart A e v = A(e := (A e)(str ''shady-part'' := v))"

definition rescoped ::
  "(jsstring \<Rightarrow> bool) \<Rightarrow> (jsstring \<Rightarrow> jsstring) \<Rightarrow> jsstring \<Rightarrow> jsstring \<Rightarrow> exportPartsMap
     \<Rightarrow> ref list \<Rightarrow> (ref \<Rightarrow> jsstring \<Rightarrow> jsstring option) \<Rightarrow> ref \<Rightarrow> jsstring \<Rightarrow> jsstring option" where
  "rescoped hasRules idOf hs sc m nodes A =
     fold (\<lambda>p B. setShadyPart B p (nodeValue hasRules idOf hs sc m (B p (str ''part'')))) nodes A"

text \<open>The state an operation leaves, whether it returns or throws.\<close>

definition stateOf :: "(state, state) result \<Rightarrow> state" where
  "stateOf r = (case r of Ok s \<Rightarrow> s | TypeError s \<Rightarrow> s)"

text \<open>
  What a run of the scoper reads and does not change (\<open>sameTree\<close>); whether the registry
  has rules for a part name; the id the cache holds for a part name of a host; and that a
  later state holds every id an earlier one held (\<open>learns\<close>).
\<close>

definition hasRulesAt :: "state \<Rightarrow> jsstring \<Rightarrow> jsstring \<Rightarrow> jsstring \<Rightarrow> bool" where
  "hasRulesAt x hs sc pn = (customPropertyRulesForPart x hs sc pn \<noteq> [])"

definition cachedId :: "state \<Rightarrow> ref \<Rightarrow> jsstring \<Rightarrow> jsstring \<Rightarrow> jsstring \<Rightarrow> jsstring option" where
  "cachedId x h hs sc pn =
     map_option scopeSelector
       (StyleCache_fetch (partCache x) (pn @ str '':'' @ hs @ str '':'' @ sc)
          (styleProperties (StyleInfo_get x h)) (ownStylePropertyNames (StyleInfo_get x h)))"

definition sameTree :: "state \<Rightarrow> state \<Rightarrow> bool" where
  "sameTree x y =
     (document y = document x \<and> rootNode y = rootNode x \<and> host y = host x
      \<and> shadowRoot y = shadowRoot x \<and> localName y = localName x
      \<and> descendants y = descendants x \<and> StyleInfo_get y = StyleInfo_get x
      \<and> (\<forall>hs sc pn. hasRulesAt y hs sc pn = hasRulesAt x hs sc pn)
      \<and> (\<forall>e n. n \<noteq> str ''shady-part'' \<longrightarrow> attributes y e n = attributes x e n))"

definition learns :: "ref \<Rightarrow> jsstring \<Rightarrow> jsstring \<Rightarrow> state \<Rightarrow> state \<Rightarrow> bool" where
  "learns h hs sc x y = (\<forall>pn j. cachedId x h hs sc pn = Some j \<longrightarrow> cachedId y h hs sc pn = Some j)"

text \<open>
  The worked example with one custom-property rule registered for the part \<^verbatim>\<open>c1\<close> of
  \<^verbatim>\<open>x-c\<close> inside \<^verbatim>\<open>x-b\<close>.
\<close>

definition exampleStyled :: state where
  "exampleStyled =
     example\<lparr>partRuleCustomProperties :=
               [str ''x-b:x-c:c1'' \<mapsto>
                  [\<lparr>selector = str ''[shady-part~=x-b_x-c_c1]'', cssText = str ''color: var(--c);''\<rparr>]],
             StyleInfo_get := (\<lambda>n. redInfo)\<rparr>"

section \<open>The names of \<^verbatim>\<open>Object.prototype\<close>\<close>

text \<open>The names as code units, for evaluation.\<close>

lemma Object_prototype_units [code]:
  "Object_prototype =
     [[0x63, 0x6F, 0x6E, 0x73, 0x74, 0x72, 0x75, 0x63, 0x74, 0x6F, 0x72],
      [0x68, 0x61, 0x73, 0x4F, 0x77, 0x6E, 0x50, 0x72, 0x6F, 0x70, 0x65, 0x72, 0x74, 0x79],
      [0x69, 0x73, 0x50, 0x72, 0x6F, 0x74, 0x6F, 0x74, 0x79, 0x70, 0x65, 0x4F, 0x66],
      [0x70, 0x72, 0x6F, 0x70, 0x65, 0x72, 0x74, 0x79, 0x49, 0x73, 0x45, 0x6E, 0x75, 0x6D, 0x65, 0x72, 0x61, 0x62, 0x6C, 0x65],
      [0x74, 0x6F, 0x4C, 0x6F, 0x63, 0x61, 0x6C, 0x65, 0x53, 0x74, 0x72, 0x69, 0x6E, 0x67],
      [0x74, 0x6F, 0x53, 0x74, 0x72, 0x69, 0x6E, 0x67],
      [0x76, 0x61, 0x6C, 0x75, 0x65, 0x4F, 0x66],
      [0x5F, 0x5F, 0x70, 0x72, 0x6F, 0x74, 0x6F, 0x5F, 0x5F],
      [0x5F, 0x5F, 0x64, 0x65, 0x66, 0x69, 0x6E, 0x65, 0x47, 0x65, 0x74, 0x74, 0x65, 0x72, 0x5F, 0x5F],
      [0x5F, 0x5F, 0x64, 0x65, 0x66, 0x69, 0x6E, 0x65, 0x53, 0x65, 0x74, 0x74, 0x65, 0x72, 0x5F, 0x5F],
      [0x5F, 0x5F, 0x6C, 0x6F, 0x6F, 0x6B, 0x75, 0x70, 0x47, 0x65, 0x74, 0x74, 0x65, 0x72, 0x5F, 0x5F],
      [0x5F, 0x5F, 0x6C, 0x6F, 0x6F, 0x6B, 0x75, 0x70, 0x53, 0x65, 0x74, 0x74, 0x65, 0x72, 0x5F, 0x5F]]"
  by (simp add: Object_prototype_def str_def)

text \<open>
  An \<^verbatim>\<open>exportparts\<close> attribute that names a property of \<^verbatim>\<open>Object.prototype\<close>, as
  inner or as outer name, makes \<^verbatim>\<open>getExportPartsMap\<close> throw; a \<^verbatim>\<open>part\<close> attribute
  that does makes \<^verbatim>\<open>scopeAllHostParts\<close> throw behind the write of the name's own
  specifier, before the names and the part nodes that follow are looked at.
\<close>

lemma getExportPartsMap_inherited_inner:
  "(case getExportPartsMap (setAttribute example 7 (str ''exportparts'') (str ''constructor:b2'')) 7 of
      Some (TypeError u) \<Rightarrow> True
    | _ \<Rightarrow> False)"
  by code_simp

lemma getExportPartsMap_inherited_outer:
  "(case getExportPartsMap (setAttribute example 7 (str ''exportparts'') (str ''c1:toString'')) 7 of
      Some (TypeError u) \<Rightarrow> True
    | _ \<Rightarrow> False)"
  by code_simp

lemma scopeAllHostParts_inherited:
  "(case scopeAllHostParts (setAttribute example 9 (str ''part'') (str ''constructor c1'')) 7 of
      Some (TypeError t) \<Rightarrow> getAttribute t 9 (str ''shady-part'')
    | _ \<Rightarrow> None)
   = Some (str ''x-b_x-c_constructor'')"
  by code_simp

section \<open>What the operations leave alone\<close>

lemma attributes_setAttribute:
  "attributes (setAttribute s e n v) e' n' = (if e' = e \<and> n' = n then Some v else attributes s e' n')"
  by (simp add: setAttribute_def)

lemma attributes_removeAttribute:
  "attributes (removeAttribute s e n) e' n' = (if e' = e \<and> n' = n then None else attributes s e' n')"
  by (simp add: removeAttribute_def)

lemma addPartSpecifier_other:
  "n \<noteq> str ''shady-part'' \<Longrightarrow> attributes (addPartSpecifier s el x) e n = attributes s e n"
  by (simp add: addPartSpecifier_def attributes_setAttribute split: option.splits)

lemma removeAllPartSpecifiers_other:
  "n \<noteq> str ''shady-part'' \<Longrightarrow> attributes (removeAllPartSpecifiers s el) e n = attributes s e n"
  by (simp add: removeAllPartSpecifiers_def attributes_removeAttribute)

lemma attributes_getPartId:
  "getPartId s pn ps cs info = (i, s') \<Longrightarrow> attributes s' = attributes s"
  by (auto simp: getPartId_def Let_def split: option.splits)

lemma attributes_applyPartRules:
  "attributes (applyPartRules s ps cs pn pid info) = attributes s"
  by (simp add: applyPartRules_def Let_def)

text \<open>What every run of a loop body keeps, the loop keeps, whether it returns or throws.\<close>

lemma forEach_invariant:
  assumes refl: "\<And>a. R a a" and trans: "\<And>a b c. R a b \<Longrightarrow> R b c \<Longrightarrow> R a c"
    and body: "\<And>x a. R a (stateOf (body x a))"
  shows "R s (stateOf (forEach body xs s))"
proof (induction xs arbitrary: s)
  case Nil
  show ?case by (simp add: stateOf_def refl)
next
  case (Cons x xs)
  show ?case
  proof (cases "body x s")
    case (Ok s1)
    with body [of s x] have "R s s1" by (simp add: stateOf_def)
    moreover have "R s1 (stateOf (forEach body xs s1))" by (rule Cons.IH)
    ultimately show ?thesis
      using Ok by (auto intro: trans)
  next
    case (TypeError s1)
    with body [of s x] show ?thesis by (simp add: stateOf_def)
  qed
qed

lemma addExportedSpecifiers_other:
  assumes "n \<noteq> str ''shady-part''"
  shows "attributes (stateOf (addExportedSpecifiers m el pn s)) e n = attributes s e n"
proof -
  have "attributes (fold (\<lambda>x st. addPartSpecifier st el (f x)) xs s) e n = attributes s e n"
    for f :: "exportEntry \<Rightarrow> jsstring" and xs
    by (induction xs arbitrary: s) (simp_all add: addPartSpecifier_other assms)
  then show ?thesis
    by (simp add: addExportedSpecifiers_def stateOf_def split: property.splits)
qed

lemma scopePartName_other:
  assumes "n \<noteq> str ''shady-part''"
  shows "attributes (stateOf (scopePartName h hs sc m pnode pn s)) e n = attributes s e n"
  using assms
  by (auto simp: scopePartName_def Let_def addExportedSpecifiers_other addPartSpecifier_other
      attributes_applyPartRules split: prod.splits dest: attributes_getPartId)

lemma scopePartNode_other:
  assumes "n \<noteq> str ''shady-part''"
  shows "attributes (stateOf (scopePartNode h hs sc m pnode s)) e n = attributes s e n"
proof -
  have "attributes (stateOf (forEach (scopePartName h hs sc m pnode) xs s')) e n = attributes s' e n"
    for xs s'
    by (rule forEach_invariant [where R = "\<lambda>a b. attributes b e n = attributes a e n"])
      (simp_all add: scopePartName_other assms)
  then show ?thesis
    by (simp add: scopePartNode_def Let_def removeAllPartSpecifiers_other assms)
qed

lemma forEach_scopePartNode_other:
  assumes "n \<noteq> str ''shady-part''"
  shows "attributes (stateOf (forEach (scopePartNode h hs sc m) xs s)) e n = attributes s e n"
  by (rule forEach_invariant [where R = "\<lambda>a b. attributes b e n = attributes a e n"])
    (simp_all add: scopePartNode_other assms)

lemma scopeAllHostParts_other:
  "n \<noteq> str ''shady-part'' \<Longrightarrow> scopeAllHostParts s h = Some r \<Longrightarrow>
   attributes (stateOf r) e n = attributes s e n"
  by (auto simp: scopeAllHostParts_def Let_def forEach_scopePartNode_other stateOf_def [of "Ok s"]
      stateOf_def [of "TypeError s"] split: option.splits if_splits result.splits)

lemma addPartSpecifiersToElement_other:
  assumes "n \<noteq> str ''shady-part''" "addPartSpecifiersToElement s el pns = Some r"
  shows "attributes (stateOf r) e n = attributes s e n"
proof -
  have "attributes (stateOf (forEach (\<lambda>pn st. addExportedSpecifiers m el pn
            (addPartSpecifier st el (f pn))) xs s0)) e n = attributes s0 e n"
    for m xs s0 and f :: "jsstring \<Rightarrow> jsstring"
    by (rule forEach_invariant [where R = "\<lambda>a b. attributes b e n = attributes a e n"])
      (simp_all add: addExportedSpecifiers_other addPartSpecifier_other assms(1))
  then show ?thesis
    using assms(2)
    by (auto simp: addPartSpecifiersToElement_def Let_def stateOf_def [of "Ok s"]
        stateOf_def [of "TypeError s"] split: option.splits if_splits result.splits)
qed

section \<open>The loop of the resolver\<close>

lemma exportPartsMapLoop_lookup:
  assumes "\<forall>p \<in> set ps. inner p \<notin> set Object_prototype \<and> outer p \<notin> set Object_prototype"
  shows "\<exists>m'. exportPartsMapLoop hs sc se ps m = Ok m'
     \<and> (\<forall>k. m' k = (case exportedEntries hs sc se ps k of
                        None \<Rightarrow> m k
                      | Some new \<Rightarrow> Some ((case m k of None \<Rightarrow> [] | Some a \<Rightarrow> a) @ new)))"
  using assms
proof (induction ps arbitrary: m)
  case Nil
  then show ?case by (simp add: exportedEntries_def)
next
  case (Cons p ps)
  from Cons.prems have ip: "inner p \<notin> set Object_prototype" and op: "outer p \<notin> set Object_prototype"
    and rest: "\<forall>p \<in> set ps. inner p \<notin> set Object_prototype \<and> outer p \<notin> set Object_prototype"
    by simp_all
  define arr where "arr = (case m (inner p) of None \<Rightarrow> [] | Some a \<Rightarrow> a)
      @ \<lparr>partName = outer p, scope = sc, hostScope = hs\<rparr>
      # (case se (outer p) of None \<Rightarrow> [] | Some es \<Rightarrow> es)"
  have step: "exportPartsMapLoop hs sc se (p # ps) m
      = exportPartsMapLoop hs sc se ps (m(inner p \<mapsto> arr))"
    using ip op by (simp add: getProperty_def arr_def Let_def split: option.splits)
  from Cons.IH [OF rest, of "m(inner p \<mapsto> arr)"]
  obtain m' where m': "exportPartsMapLoop hs sc se ps (m(inner p \<mapsto> arr)) = Ok m'"
    and look: "\<And>k. m' k = (case exportedEntries hs sc se ps k of
                        None \<Rightarrow> (m(inner p \<mapsto> arr)) k
                      | Some new \<Rightarrow> Some ((case (m(inner p \<mapsto> arr)) k of None \<Rightarrow> [] | Some a \<Rightarrow> a) @ new))"
    by blast
  have "m' k = (case exportedEntries hs sc se (p # ps) k of
                        None \<Rightarrow> m k
                      | Some new \<Rightarrow> Some ((case m k of None \<Rightarrow> [] | Some a \<Rightarrow> a) @ new))" for k
  proof (cases "inner p = k")
    case True
    then show ?thesis
      by (simp add: look exportedEntries_def arr_def Let_def split: option.splits)
  next
    case False
    then show ?thesis
      by (simp add: look exportedEntries_def Let_def split: option.splits)
  qed
  with step m' show ?case
    by simp
qed

section \<open>Part ids\<close>





lemma fetch_after_store:
  "StyleCache_fetch (StyleCache_store c key props el i) key props names
     = Some \<lparr>properties = props, styleElement = el, scopeSelector = i\<rparr>"
  by (simp add: StyleCache_fetch_def StyleCache_store_def list_all_iff)

lemma fetch_store_other:
  "k \<noteq> key \<Longrightarrow> StyleCache_fetch (StyleCache_store c key props el i) k p names
     = StyleCache_fetch c k p names"
  by (simp add: StyleCache_fetch_def StyleCache_store_def)



lemma getPartId_again:
  "getPartId s pn ps cs info = (i, s1) \<Longrightarrow> getPartId s1 pn ps cs info = (i, s1)"
  by (auto simp: getPartId_def Let_def fetch_after_store split: option.splits)





section \<open>Scoping a host twice\<close>

lemma part_neq_shady: "str ''part'' \<noteq> str ''shady-part''"
  by (simp add: str_def)

lemma sameTree_refl: "sameTree x x"
  by (simp add: sameTree_def)

lemma sameTree_trans: "sameTree x y \<Longrightarrow> sameTree y z \<Longrightarrow> sameTree x z"
  by (simp add: sameTree_def)

lemma learns_refl: "learns h hs sc x x"
  by (simp add: learns_def)

lemma learns_trans: "learns h hs sc x y \<Longrightarrow> learns h hs sc y z \<Longrightarrow> learns h hs sc x z"
  by (simp add: learns_def)

lemma addPartSpecifier_attributes:
  "attributes (addPartSpecifier s e x)
     = setShadyPart (attributes s) e (appendSpecifier (attributes s e (str ''shady-part'')) x)"
  by (auto simp: addPartSpecifier_def setAttribute_def getAttribute_def setShadyPart_def
      appendSpecifier_def split: option.splits)

lemma setShadyPart_twice: "setShadyPart (setShadyPart A e v) e w = setShadyPart A e w"
  by (simp add: setShadyPart_def)

lemma setShadyPart_same: "setShadyPart A e v e (str ''shady-part'') = v"
  by (simp add: setShadyPart_def)


lemma scopeForRoot_sameTree:
  assumes "sameTree x y"
  shows "scopeForRoot y = scopeForRoot x"
proof -
  from assms have "localName y = localName x" "host y = host x" "document y = document x"
    by (simp_all add: sameTree_def)
  then show ?thesis
    by (intro ext) (simp add: scopeForRoot_def split: option.splits)
qed

lemma exportparts_neq_shady: "str ''exportparts'' \<noteq> str ''shady-part''"
  by (simp add: str_def)

lemma getExportPartsMap_sameTree:
  assumes "getExportPartsMap x h = Some r" and "sameTree x y"
  shows "getExportPartsMap y h = Some r"
proof -
  have "sameTree x y \<longrightarrow> getExportPartsMap y h = Some r"
  proof (rule getExportPartsMap.raw_induct [rotated, OF assms(1)], goal_cases)
    case (1 g s k sa)
    show ?case
    proof
      assume st: "sameTree s y"
      then have eqs: "getAttribute y k (str ''exportparts'') = getAttribute s k (str ''exportparts'')"
        "rootNode y = rootNode s" "document y = document s" "host y = host s"
        "localName y = localName s" "scopeForRoot y = scopeForRoot s"
        using exportparts_neq_shady
        by (auto simp: scopeForRoot_sameTree getAttribute_def sameTree_def)
      show "getExportPartsMap y k = Some sa"
        using 1 st
        by (subst getExportPartsMap.simps)
          (auto simp: eqs Let_def bind_eq_Some_conv split: option.splits if_splits)
    qed
  qed
  with assms(2) show ?thesis by simp
qed

lemma getPartId_fields:
  "getPartId x pn hs sc info = (i, y) \<Longrightarrow> \<exists>c n. y = x\<lparr>partNumber := n, partCache := c\<rparr>"
proof (cases "StyleCache_fetch (partCache x) (pn @ str '':'' @ hs @ str '':'' @ sc)
                (styleProperties info) (ownStylePropertyNames info)")
  case None
  assume "getPartId x pn hs sc info = (i, y)"
  with None have "y = x\<lparr>partNumber := postIncrement (partNumber x),
      partCache := StyleCache_store (partCache x) (pn @ str '':'' @ hs @ str '':'' @ sc)
        (styleProperties info) None i\<rparr>"
    by (auto simp: getPartId_def Let_def)
  then show ?thesis by blast
next
  case (Some e)
  assume "getPartId x pn hs sc info = (i, y)"
  with Some have "y = x" by (auto simp: getPartId_def Let_def)
  then have "y = x\<lparr>partNumber := partNumber x, partCache := partCache x\<rparr>" by simp
  then show ?thesis by blast
qed

lemma hasRulesAt_cache_upd:
  "hasRulesAt (x\<lparr>partNumber := n, partCache := c\<rparr>) = hasRulesAt x"
  by (simp add: fun_eq_iff hasRulesAt_def customPropertyRulesForPart_def)

lemma getPartId_sameTree: "getPartId x pn hs sc info = (i, y) \<Longrightarrow> sameTree x y"
  by (drule getPartId_fields) (auto simp: sameTree_def hasRulesAt_cache_upd)

lemma getPartId_cached:
  assumes "getPartId x pn hs sc (StyleInfo_get x h) = (i, y)"
  shows "cachedId y h hs sc pn = Some i"
proof -
  from getPartId_again [OF assms] have "getPartId y pn hs sc (StyleInfo_get x h) = (i, y)" .
  moreover from getPartId_sameTree [OF assms] have "StyleInfo_get y = StyleInfo_get x"
    by (simp add: sameTree_def)
  moreover have "StyleCache_fetch (partCache y) (pn @ str '':'' @ hs @ str '':'' @ sc)
      (styleProperties (StyleInfo_get x h)) (ownStylePropertyNames (StyleInfo_get x h)) \<noteq> None"
    using assms
    by (auto simp: getPartId_def Let_def fetch_after_store split: option.splits)
  ultimately show ?thesis
    by (auto simp: cachedId_def getPartId_def Let_def split: option.splits)
qed

lemma getPartId_learns:
  assumes "getPartId x pn hs sc (StyleInfo_get x h) = (i, y)"
  shows "learns h hs sc x y"
proof (cases "StyleCache_fetch (partCache x) (pn @ str '':'' @ hs @ str '':'' @ sc)
                (styleProperties (StyleInfo_get x h)) (ownStylePropertyNames (StyleInfo_get x h))")
  case (Some e)
  with assms have "y = x" by (auto simp: getPartId_def Let_def)
  then show ?thesis by (simp add: learns_refl)
next
  case None
  with assms have c: "partCache y = StyleCache_store (partCache x) (pn @ str '':'' @ hs @ str '':'' @ sc)
      (styleProperties (StyleInfo_get x h)) None i"
    and si: "StyleInfo_get y = StyleInfo_get x"
    by (auto simp: getPartId_def Let_def)
  show ?thesis
    unfolding learns_def
  proof (intro allI impI)
    fix pn' j assume k: "cachedId x h hs sc pn' = Some j"
    with None have "pn' @ str '':'' @ hs @ str '':'' @ sc \<noteq> pn @ str '':'' @ hs @ str '':'' @ sc"
      by (auto simp: cachedId_def)
    with k show "cachedId y h hs sc pn' = Some j"
      by (simp add: cachedId_def c si fetch_store_other)
  qed
qed

lemma hasRulesAt_applyPartRules:
  "hasRulesAt (applyPartRules x hs sc pn pid info) hs' sc' pn' = hasRulesAt x hs' sc' pn'"
  by (auto simp: hasRulesAt_def applyPartRules_def customPropertyRulesForPart_def Let_def
      split: option.splits)

lemma applyPartRules_sameTree: "sameTree x (applyPartRules x hs sc pn pid info)"
  unfolding sameTree_def
  by (simp add: hasRulesAt_applyPartRules) (simp add: applyPartRules_def Let_def)

lemma cachedId_applyPartRules:
  "cachedId (applyPartRules x hs sc pn pid info) = cachedId x"
  by (simp add: fun_eq_iff cachedId_def applyPartRules_def Let_def)

lemma addPartSpecifier_upd: "\<exists>A. addPartSpecifier x e v = x\<lparr>attributes := A\<rparr>"
  by (auto simp: addPartSpecifier_def setAttribute_def split: option.splits)

lemma removeAllPartSpecifiers_upd: "\<exists>A. removeAllPartSpecifiers x e = x\<lparr>attributes := A\<rparr>"
  by (auto simp: removeAllPartSpecifiers_def removeAttribute_def)

lemma addExportedSpecifiers_upd: "\<exists>A. stateOf (addExportedSpecifiers m e pn x) = x\<lparr>attributes := A\<rparr>"
proof -
  have "\<exists>A. fold (\<lambda>u st. addPartSpecifier st e (f u)) us x = x\<lparr>attributes := A\<rparr>"
    for f :: "exportEntry \<Rightarrow> jsstring" and us
  proof (induction us arbitrary: x)
    case Nil
    show ?case by (rule exI [of _ "attributes x"]) simp
  next
    case (Cons u us)
    obtain A where "addPartSpecifier x e (f u) = x\<lparr>attributes := A\<rparr>"
      using addPartSpecifier_upd by blast
    moreover obtain B where "fold (\<lambda>u st. addPartSpecifier st e (f u)) us (x\<lparr>attributes := A\<rparr>)
        = x\<lparr>attributes := A\<rparr>\<lparr>attributes := B\<rparr>"
      using Cons.IH by blast
    ultimately show ?case by auto
  qed
  moreover have "\<exists>A. x = x\<lparr>attributes := A\<rparr>"
    by (rule exI [of _ "attributes x"]) simp
  ultimately show ?thesis
    unfolding addExportedSpecifiers_def by (cases "getProperty m pn") (simp_all add: stateOf_def)
qed

lemma cachedId_attributes_upd: "cachedId (x\<lparr>attributes := A\<rparr>) = cachedId x"
  by (simp add: fun_eq_iff cachedId_def)

lemma hasRulesAt_attributes_upd: "hasRulesAt (x\<lparr>attributes := A\<rparr>) = hasRulesAt x"
  by (simp add: fun_eq_iff hasRulesAt_def customPropertyRulesForPart_def)


lemma addExportedSpecifiers_attributes:
  "attributes (stateOf (addExportedSpecifiers m e pn x))
     = setShadyPart (attributes x) e (exportedValue m pn (attributes x e (str ''shady-part'')))"
proof -
  have "attributes (fold (\<lambda>u st. addPartSpecifier st e (f u)) us x)
      = setShadyPart (attributes x) e
          (fold (\<lambda>u w. appendSpecifier w (f u)) us (attributes x e (str ''shady-part'')))"
    for f :: "exportEntry \<Rightarrow> jsstring" and us
  proof (induction us arbitrary: x)
    case Nil
    show ?case by (simp add: setShadyPart_def)
  next
    case (Cons u us)
    show ?case
      by (simp add: Cons.IH addPartSpecifier_attributes setShadyPart_twice setShadyPart_same)
  qed
  then show ?thesis
    by (simp add: addExportedSpecifiers_def exportedValue_def setShadyPart_def getProperty_def
        stateOf_def split: option.splits)
qed

lemma upd_sameTree: "sameTree x y \<Longrightarrow> sameTree x (y\<lparr>attributes := setShadyPart (attributes y) e v\<rparr>)"
  by (simp add: sameTree_def hasRulesAt_attributes_upd setShadyPart_def)

lemma attributes_upd_eq: "y = x\<lparr>attributes := A\<rparr> \<Longrightarrow> y = x\<lparr>attributes := attributes y\<rparr>"
  by simp

lemma addPartSpecifier_eq:
  "addPartSpecifier x e v
     = x\<lparr>attributes := setShadyPart (attributes x) e (appendSpecifier (attributes x e (str ''shady-part'')) v)\<rparr>"
  using addPartSpecifier_upd [of x e v] addPartSpecifier_attributes [of x e v]
  by (metis attributes_upd_eq)

lemma addExportedSpecifiers_eq:
  "stateOf (addExportedSpecifiers m e pn x)
     = x\<lparr>attributes := setShadyPart (attributes x) e (exportedValue m pn (attributes x e (str ''shady-part'')))\<rparr>"
  using addExportedSpecifiers_upd [of m e pn x] addExportedSpecifiers_attributes [of m e pn x]
  by (metis attributes_upd_eq)

lemma removeAllPartSpecifiers_eq:
  "removeAllPartSpecifiers x e = x\<lparr>attributes := setShadyPart (attributes x) e None\<rparr>"
  by (simp add: removeAllPartSpecifiers_def removeAttribute_def setShadyPart_def)

text \<open>Which runs return.\<close>

lemma addExportedSpecifiers_returns:
  "(\<exists>y. addExportedSpecifiers m e pn x = Ok y) \<longleftrightarrow> getProperty m pn \<noteq> Inherited"
  by (cases "getProperty m pn") (simp_all add: addExportedSpecifiers_def)

lemma scopePartName_returns:
  "(\<exists>y. scopePartName h hs sc m p pn x = Ok y) \<longleftrightarrow> getProperty m pn \<noteq> Inherited"
  by (simp add: scopePartName_def Let_def addExportedSpecifiers_returns)

lemma forEach_returns:
  assumes "\<And>x s. (\<exists>y. body x s = Ok y) \<longleftrightarrow> ok x"
  shows "(\<exists>y. forEach body xs s = Ok y) \<longleftrightarrow> list_all ok xs"
proof (induction xs arbitrary: s)
  case Nil
  show ?case by simp
next
  case (Cons x xs)
  show ?case
  proof (cases "body x s")
    case (Ok s1)
    then have "ok x" using assms by blast
    with Ok Cons.IH [of s1] show ?thesis by simp
  next
    case (TypeError s1)
    then have "\<not> ok x" using assms [of x s] by simp
    with TypeError show ?thesis by simp
  qed
qed

lemma Ok_stateOf: "r = Ok y \<Longrightarrow> stateOf r = y"
  by (simp add: stateOf_def)

text \<open>One part name.\<close>

lemma scopePartName_plain:
  assumes "\<not> hasRulesAt x hs sc pn"
  shows "scopePartName h hs sc m p pn x
    = addExportedSpecifiers m p pn (addPartSpecifier x p (formatPartSpecifier pn sc hs))"
  using assms by (simp add: scopePartName_def hasRulesAt_def Let_def)

lemma scopePartName_styled:
  assumes "hasRulesAt x hs sc pn" and "getPartId x pn hs sc (StyleInfo_get x h) = (i, xa)"
  shows "scopePartName h hs sc m p pn x
    = addExportedSpecifiers m p pn
        (addPartSpecifier (applyPartRules xa hs sc pn i (StyleInfo_get x h)) p
           (formatPartSpecifier (pn @ str ''_'' @ i) sc hs))"
  using assms by (simp add: scopePartName_def hasRulesAt_def Let_def)

lemma scopePartName_sameTree: "sameTree x (stateOf (scopePartName h hs sc m p pn x))"
proof (cases "hasRulesAt x hs sc pn")
  case False
  show ?thesis
    by (simp add: scopePartName_plain [OF False] addExportedSpecifiers_eq addPartSpecifier_eq
        sameTree_def hasRulesAt_attributes_upd setShadyPart_def)
next
  case True
  obtain i xa where g: "getPartId x pn hs sc (StyleInfo_get x h) = (i, xa)"
    by (cases "getPartId x pn hs sc (StyleInfo_get x h)") auto
  have "sameTree x (applyPartRules xa hs sc pn i (StyleInfo_get x h))"
    using getPartId_sameTree [OF g] applyPartRules_sameTree sameTree_trans by blast
  then show ?thesis
    unfolding scopePartName_styled [OF True g] addExportedSpecifiers_eq addPartSpecifier_eq
    by (simp add: sameTree_def hasRulesAt_attributes_upd setShadyPart_def)
qed

lemma scopePartName_learns: "learns h hs sc x (stateOf (scopePartName h hs sc m p pn x))"
proof (cases "hasRulesAt x hs sc pn")
  case False
  show ?thesis
    by (simp add: scopePartName_plain [OF False] addExportedSpecifiers_eq addPartSpecifier_eq
        learns_def cachedId_attributes_upd)
next
  case True
  obtain i xa where g: "getPartId x pn hs sc (StyleInfo_get x h) = (i, xa)"
    by (cases "getPartId x pn hs sc (StyleInfo_get x h)") auto
  have "cachedId (stateOf (scopePartName h hs sc m p pn x)) = cachedId xa"
    by (simp add: scopePartName_styled [OF True g] addExportedSpecifiers_eq addPartSpecifier_eq
        cachedId_attributes_upd cachedId_applyPartRules)
  then show ?thesis
    using getPartId_learns [OF g] by (simp add: learns_def)
qed

lemma scopePartName_attributes:
  assumes f: "\<And>j. cachedId (stateOf (scopePartName h hs sc m p pn x)) h hs sc pn = Some j \<Longrightarrow> f pn = j"
  shows "attributes (stateOf (scopePartName h hs sc m p pn x))
    = setShadyPart (attributes x) p
        (nameValue (hasRulesAt x hs sc) f hs sc m pn (attributes x p (str ''shady-part'')))"
proof (cases "hasRulesAt x hs sc pn")
  case False
  then show ?thesis
    by (simp add: scopePartName_plain [OF False] addExportedSpecifiers_eq addPartSpecifier_eq
        nameValue_def setShadyPart_twice setShadyPart_same)
next
  case True
  obtain i xa where g: "getPartId x pn hs sc (StyleInfo_get x h) = (i, xa)"
    by (cases "getPartId x pn hs sc (StyleInfo_get x h)") auto
  have attr: "attributes (applyPartRules xa hs sc pn i (StyleInfo_get x h)) = attributes x"
    using attributes_getPartId [OF g] by (simp add: attributes_applyPartRules)
  have "cachedId (stateOf (scopePartName h hs sc m p pn x)) = cachedId xa"
    by (simp add: scopePartName_styled [OF True g] addExportedSpecifiers_eq addPartSpecifier_eq
        cachedId_attributes_upd cachedId_applyPartRules)
  with getPartId_cached [OF g]
  have "cachedId (stateOf (scopePartName h hs sc m p pn x)) h hs sc pn = Some i"
    by simp
  then have "f pn = i" by (rule f)
  with True show ?thesis
    by (simp add: scopePartName_styled [OF True g] addExportedSpecifiers_eq addPartSpecifier_eq
        nameValue_def attr setShadyPart_twice setShadyPart_same)
qed

lemma hasRulesAt_sameTree: "sameTree x y \<Longrightarrow> hasRulesAt y = hasRulesAt x"
  by (intro ext) (simp add: sameTree_def)

text \<open>The part names of one node.\<close>

lemma forEach_scopePartName_sameTree:
  "sameTree x (stateOf (forEach (scopePartName h hs sc m p) ns x))"
  by (rule forEach_invariant [where R = sameTree])
    (auto intro: sameTree_refl sameTree_trans scopePartName_sameTree)

lemma forEach_scopePartName_learns:
  "learns h hs sc x (stateOf (forEach (scopePartName h hs sc m p) ns x))"
  by (rule forEach_invariant [where R = "learns h hs sc"])
    (auto intro: learns_refl learns_trans scopePartName_learns)

lemma forEach_scopePartName_attributes:
  assumes "forEach (scopePartName h hs sc m p) ns x = Ok y"
    and "\<And>pn j. cachedId y h hs sc pn = Some j \<Longrightarrow> f pn = j"
  shows "attributes y
    = setShadyPart (attributes x) p
        (fold (nameValue (hasRulesAt x hs sc) f hs sc m) ns (attributes x p (str ''shady-part'')))"
  using assms
proof (induction ns arbitrary: x)
  case Nil
  then show ?case by (simp add: setShadyPart_def)
next
  case (Cons pn ns)
  from Cons.prems(1) obtain x1 where b: "scopePartName h hs sc m p pn x = Ok x1"
    and r: "forEach (scopePartName h hs sc m p) ns x1 = Ok y"
    by (auto split: result.splits)
  note x1 = Ok_stateOf [OF b]
  have f1: "f pn = j" if "cachedId x1 h hs sc pn = Some j" for j
  proof -
    from forEach_scopePartName_learns [of h hs sc x1 m p ns] that
    have "cachedId y h hs sc pn = Some j"
      by (simp add: learns_def Ok_stateOf [OF r])
    then show ?thesis
      by (rule Cons.prems(2))
  qed
  have a1: "attributes x1 = setShadyPart (attributes x) p
      (nameValue (hasRulesAt x hs sc) f hs sc m pn (attributes x p (str ''shady-part'')))"
    using scopePartName_attributes [of h hs sc m p pn x f] f1 by (simp add: x1)
  have h1: "hasRulesAt x1 = hasRulesAt x"
    using scopePartName_sameTree [of x h hs sc m p pn] by (simp add: x1 hasRulesAt_sameTree)
  have "attributes y
    = setShadyPart (attributes x1) p
        (fold (nameValue (hasRulesAt x1 hs sc) f hs sc m) ns (attributes x1 p (str ''shady-part'')))"
    using r Cons.prems(2) by (rule Cons.IH)
  then show ?case
    by (simp add: a1 h1 setShadyPart_twice setShadyPart_same)
qed

text \<open>One part node.\<close>

lemma scopePartNode_unfold:
  "scopePartNode h hs sc m p x
    = forEach (scopePartName h hs sc m p) (parsePartAttribute (attributes x p (str ''part'')))
        (x\<lparr>attributes := setShadyPart (attributes x) p None\<rparr>)"
  using part_neq_shady
  by (simp add: scopePartNode_def Let_def removeAllPartSpecifiers_eq getAttribute_def setShadyPart_def)

lemma scopePartNode_returns:
  "(\<exists>y. scopePartNode h hs sc m p x = Ok y) \<longleftrightarrow>
     list_all (\<lambda>pn. getProperty m pn \<noteq> Inherited) (parsePartAttribute (attributes x p (str ''part'')))"
  unfolding scopePartNode_unfold
  by (rule forEach_returns) (rule scopePartName_returns)

lemma scopePartNode_sameTree: "sameTree x (stateOf (scopePartNode h hs sc m p x))"
proof -
  have "sameTree x (x\<lparr>attributes := setShadyPart (attributes x) p None\<rparr>)"
    by (simp add: sameTree_def hasRulesAt_attributes_upd setShadyPart_def)
  then show ?thesis
    unfolding scopePartNode_unfold
    using forEach_scopePartName_sameTree sameTree_trans by blast
qed

lemma scopePartNode_learns: "learns h hs sc x (stateOf (scopePartNode h hs sc m p x))"
proof -
  have "learns h hs sc x (x\<lparr>attributes := setShadyPart (attributes x) p None\<rparr>)"
    by (simp add: learns_def cachedId_attributes_upd)
  then show ?thesis
    unfolding scopePartNode_unfold
    using forEach_scopePartName_learns learns_trans by blast
qed

lemma scopePartNode_attributes:
  assumes "scopePartNode h hs sc m p x = Ok y"
    and "\<And>pn j. cachedId y h hs sc pn = Some j \<Longrightarrow> f pn = j"
  shows "attributes y
    = setShadyPart (attributes x) p
        (nodeValue (hasRulesAt x hs sc) f hs sc m (attributes x p (str ''part'')))"
proof -
  let ?x0 = "x\<lparr>attributes := setShadyPart (attributes x) p None\<rparr>"
  let ?ns = "parsePartAttribute (attributes x p (str ''part''))"
  from assms(1) have "forEach (scopePartName h hs sc m p) ?ns ?x0 = Ok y"
    by (simp only: scopePartNode_unfold)
  then have "attributes y
    = setShadyPart (attributes ?x0) p
        (fold (nameValue (hasRulesAt ?x0 hs sc) f hs sc m) ?ns (attributes ?x0 p (str ''shady-part'')))"
    using assms(2) by (rule forEach_scopePartName_attributes)
  then show ?thesis
    by (simp add: nodeValue_def hasRulesAt_attributes_upd setShadyPart_twice setShadyPart_same)
qed

text \<open>All part nodes of a host.\<close>

lemma forEach_scopePartNode_sameTree:
  "sameTree x (stateOf (forEach (scopePartNode h hs sc m) ps x))"
  by (rule forEach_invariant [where R = sameTree])
    (auto intro: sameTree_refl sameTree_trans scopePartNode_sameTree)

lemma forEach_scopePartNode_learns:
  "learns h hs sc x (stateOf (forEach (scopePartNode h hs sc m) ps x))"
  by (rule forEach_invariant [where R = "learns h hs sc"])
    (auto intro: learns_refl learns_trans scopePartNode_learns)

lemma forEach_scopePartNode_returns:
  "(\<exists>y. forEach (scopePartNode h hs sc m) ps x = Ok y) \<longleftrightarrow>
     (\<forall>p \<in> set ps. list_all (\<lambda>pn. getProperty m pn \<noteq> Inherited)
                      (parsePartAttribute (attributes x p (str ''part''))))"
proof (induction ps arbitrary: x)
  case Nil
  show ?case by simp
next
  case (Cons p ps)
  show ?case
  proof (cases "scopePartNode h hs sc m p x")
    case (Ok x1)
    with scopePartNode_sameTree [of x h hs sc m p] have "sameTree x x1"
      by (simp add: stateOf_def)
    with part_neq_shady have "attributes x1 e (str ''part'') = attributes x e (str ''part'')" for e
      by (simp add: sameTree_def)
    moreover from Ok scopePartNode_returns [of h hs sc m p x]
    have "list_all (\<lambda>pn. getProperty m pn \<noteq> Inherited)
            (parsePartAttribute (attributes x p (str ''part'')))"
      by simp
    ultimately show ?thesis
      using Ok Cons.IH [of x1] by simp
  next
    case (TypeError x1)
    with scopePartNode_returns [of h hs sc m p x]
    have "\<not> list_all (\<lambda>pn. getProperty m pn \<noteq> Inherited)
            (parsePartAttribute (attributes x p (str ''part'')))"
      by simp
    with TypeError show ?thesis by simp
  qed
qed

lemma forEach_scopePartNode_attributes:
  assumes "forEach (scopePartNode h hs sc m) ps x = Ok y"
    and "\<And>pn j. cachedId y h hs sc pn = Some j \<Longrightarrow> f pn = j"
  shows "attributes y = rescoped (hasRulesAt x hs sc) f hs sc m ps (attributes x)"
  using assms
proof (induction ps arbitrary: x)
  case Nil
  then show ?case by (simp add: rescoped_def)
next
  case (Cons p ps)
  from Cons.prems(1) obtain x1 where b: "scopePartNode h hs sc m p x = Ok x1"
    and r: "forEach (scopePartNode h hs sc m) ps x1 = Ok y"
    by (auto split: result.splits)
  note x1 = Ok_stateOf [OF b]
  have f1: "f pn = j" if "cachedId x1 h hs sc pn = Some j" for pn j
  proof -
    from forEach_scopePartNode_learns [of h hs sc x1 m ps] that
    have "cachedId y h hs sc pn = Some j"
      by (simp add: learns_def Ok_stateOf [OF r])
    then show ?thesis
      by (rule Cons.prems(2))
  qed
  have a1: "attributes x1 = setShadyPart (attributes x) p
      (nodeValue (hasRulesAt x hs sc) f hs sc m (attributes x p (str ''part'')))"
    using b f1 by (rule scopePartNode_attributes)
  have h1: "hasRulesAt x1 = hasRulesAt x"
    using scopePartNode_sameTree [of x h hs sc m p] by (simp add: x1 hasRulesAt_sameTree)
  have "attributes y = rescoped (hasRulesAt x1 hs sc) f hs sc m ps (attributes x1)"
    using r Cons.prems(2) by (rule Cons.IH)
  then show ?case
    by (simp add: a1 h1 rescoped_def)
qed

lemma rescoped_pointwise:
  "rescoped H f hs sc m ps A
    = (\<lambda>e. if e \<in> set ps
            then (A e)(str ''shady-part'' := nodeValue H f hs sc m (A e (str ''part'')))
            else A e)"
proof (induction ps arbitrary: A)
  case Nil
  show ?case by (simp add: rescoped_def)
next
  case (Cons p ps)
  have "rescoped H f hs sc m (p # ps) A
      = rescoped H f hs sc m ps (setShadyPart A p (nodeValue H f hs sc m (A p (str ''part''))))"
    by (simp add: rescoped_def)
  then show ?case
    using part_neq_shady by (auto simp: Cons.IH setShadyPart_def fun_eq_iff)
qed

lemma rescoped_idem:
  "rescoped H f hs sc m ps (rescoped H f hs sc m ps A) = rescoped H f hs sc m ps A"
  using part_neq_shady by (auto simp: rescoped_pointwise fun_eq_iff)


lemma querySelectorAll_sameTree:
  assumes "sameTree x y" and "name \<noteq> str ''shady-part''"
  shows "querySelectorAll y root name = querySelectorAll x root name"
proof -
  from assms have "descendants y = descendants x" "\<And>e. attributes y e name = attributes x e name"
    by (simp_all add: sameTree_def)
  then show ?thesis
    by (simp add: querySelectorAll_def)
qed

section \<open>The matcher on the patterns of the source\<close>

text \<open>A quantified character class, and a literal.\<close>

lemma reset_Nil: "reset [] c = c"
  by (simp add: reset_def)

lemma ms_Star_Atom_Nil: "ms (Star g (Atom P)) [] c = (if g then [([], c)] else [([], c)])"
  by (simp add: reset_Nil)

lemma ms_Star_Atom_Cons:
  "ms (Star g (Atom P)) (x # xs) c =
     (if P x then (if g then ms (Star g (Atom P)) xs c @ [(x # xs, c)]
                   else (x # xs, c) # ms (Star g (Atom P)) xs c)
      else [(x # xs, c)])"
  by (simp add: reset_Nil Let_def)

lemma ms_Star_Atom_sound:
  "(s', c') \<in> set (ms (Star g (Atom P)) s c) \<Longrightarrow> \<exists>w. s = w @ s' \<and> list_all P w \<and> c' = c"
proof (induction s)
  case Nil
  then show ?case by (simp add: ms_Star_Atom_Nil split: if_splits)
next
  case (Cons x xs)
  from Cons.prems have "(s' = x # xs \<and> c' = c) \<or> (P x \<and> (s', c') \<in> set (ms (Star g (Atom P)) xs c))"
    by (auto simp: ms_Star_Atom_Cons simp del: ms.simps split: if_splits)
  then show ?case
  proof
    assume "s' = x # xs \<and> c' = c"
    then show ?thesis by simp
  next
    assume a: "P x \<and> (s', c') \<in> set (ms (Star g (Atom P)) xs c)"
    with Cons.IH obtain w where "xs = w @ s'" "list_all P w" "c' = c" by blast
    with a show ?thesis
      by (intro exI [of _ "x # w"]) simp
  qed
qed

lemma ms_Star_Atom_greedy_hd:
  "ms (Star True (Atom P)) s c \<noteq> [] \<and> hd (ms (Star True (Atom P)) s c) = (dropWhile P s, c)"
proof (induction s)
  case Nil
  show ?case by (simp add: ms_Star_Atom_Nil)
next
  case (Cons x xs)
  then show ?case
    by (simp add: ms_Star_Atom_Cons del: ms.simps)
qed

lemma concat_ms_Star_Atom_greedy:
  assumes "\<And>y ys c'. P y \<Longrightarrow> F (y # ys) c' = []"
  shows "concat (map (\<lambda>(s1, c1). F s1 c1) (ms (Star True (Atom P)) s c)) = F (dropWhile P s) c"
proof (induction s)
  case Nil
  show ?case by (simp add: ms_Star_Atom_Nil)
next
  case (Cons x xs)
  then show ?case
    by (simp add: ms_Star_Atom_Cons assms del: ms.simps)
qed

lemma ms_lits_sound: "(s', c') \<in> set (ms (lits l) s c) \<Longrightarrow> s = l @ s' \<and> c' = c"
proof (induction l arbitrary: s)
  case Nil
  then show ?case by simp
next
  case (Cons x l)
  then show ?case
    by (cases s) (auto split: if_splits)
qed

lemma ms_lits_single:
  "ms (lits [d]) s c = (case s of [] \<Rightarrow> [] | y # ys \<Rightarrow> if d = y then [(ys, c)] else [])"
  by (cases s) simp_all

lemma ms_Seq_iff:
  "(s', c') \<in> set (ms (Seq a b) s c) \<longleftrightarrow>
     (\<exists>s1 c1. (s1, c1) \<in> set (ms a s c) \<and> (s', c') \<in> set (ms b s1 c1))"
  by (subst ms.simps(3)) (auto simp del: ms.simps)

lemma ms_Group_iff:
  "(s', c') \<in> set (ms (Group i r) s c) \<longleftrightarrow>
     (\<exists>c1. (s', c1) \<in> set (ms r s c) \<and> c' = c1(i \<mapsto> take (length s - length s') s))"
  by (subst ms.simps(4)) (auto simp del: ms.simps)

lemma ms_Opt_iff:
  "(s', c') \<in> set (ms (Opt g r) s c) \<longleftrightarrow>
     (s' = s \<and> c' = c) \<or> (length s' < length s \<and> (s', c') \<in> set (ms r s (reset (groups r) c)))"
  by (subst ms.simps(7)) (auto simp: Let_def simp del: ms.simps)

lemma ms_Plus_Atom:
  "ms (Plus g (Atom P)) s c =
     (case s of [] \<Rightarrow> [] | x # xs \<Rightarrow> if P x then ms (Star g (Atom P)) xs c else [])"
  by (subst ms.simps(6)) (cases s; simp add: reset_Nil del: ms.simps(5,6))

lemma ms_Star_Atom_complete:
  "list_all P w \<Longrightarrow> (s', c) \<in> set (ms (Star g (Atom P)) (w @ s') c)"
proof (induction w)
  case Nil
  show ?case
    by (cases s') (simp_all add: ms_Star_Atom_Nil ms_Star_Atom_Cons del: ms.simps)
next
  case (Cons x w)
  then show ?case
    by (cases g) (simp_all add: ms_Star_Atom_Cons del: ms.simps)
qed

lemma ms_Star_Atom_iff:
  "(s', c') \<in> set (ms (Star g (Atom P)) s c) \<longleftrightarrow> (\<exists>w. s = w @ s' \<and> list_all P w \<and> c' = c)"
  using ms_Star_Atom_sound [of s' c' g P s c] ms_Star_Atom_complete [of P _ s' c g]
  by blast

lemma ms_Plus_Atom_iff:
  "(s', c') \<in> set (ms (Plus g (Atom P)) s c) \<longleftrightarrow>
     (\<exists>w. s = w @ s' \<and> w \<noteq> [] \<and> list_all P w \<and> c' = c)"
proof (cases s)
  case Nil
  then show ?thesis
    by (simp add: ms_Plus_Atom)
next
  case (Cons x xs)
  show ?thesis
  proof
    assume "(s', c') \<in> set (ms (Plus g (Atom P)) s c)"
    with Cons have "P x" and "(s', c') \<in> set (ms (Star g (Atom P)) xs c)"
      by (simp_all add: ms_Plus_Atom del: ms.simps split: if_splits)
    then obtain w where "xs = w @ s'" "list_all P w" "c' = c"
      unfolding ms_Star_Atom_iff by blast
    with Cons \<open>P x\<close> show "\<exists>w. s = w @ s' \<and> w \<noteq> [] \<and> list_all P w \<and> c' = c"
      by (intro exI [of _ "x # w"]) simp
  next
    assume "\<exists>w. s = w @ s' \<and> w \<noteq> [] \<and> list_all P w \<and> c' = c"
    then obtain w where w: "s = w @ s'" "w \<noteq> []" "list_all P w" "c' = c"
      by blast
    with Cons obtain w' where w': "w = x # w'" "xs = w' @ s'"
      by (cases w) auto
    with w have "P x" "(s', c') \<in> set (ms (Star g (Atom P)) xs c)"
      unfolding ms_Star_Atom_iff by auto
    with Cons show "(s', c') \<in> set (ms (Plus g (Atom P)) s c)"
      by (simp add: ms_Plus_Atom del: ms.simps)
  qed
qed

lemma ms_lits_complete: "ms (lits l) (l @ s') c = [(s', c)]"
  by (induction l) simp_all

lemma ms_lits_iff: "(s', c') \<in> set (ms (lits l) s c) \<longleftrightarrow> s = l @ s' \<and> c' = c"
  using ms_lits_sound [of s' c' l s c] ms_lits_complete [of l s' c]
  by auto

text \<open>A captured quantified class.\<close>

lemma ms_Group_Star_iff:
  "(s', c') \<in> set (ms (Group i (Star g (Atom P))) s c) \<longleftrightarrow>
     (\<exists>w. s = w @ s' \<and> list_all P w \<and> c' = c(i \<mapsto> w))"
  unfolding ms_Group_iff ms_Star_Atom_iff by auto

text \<open>The tag name \<^verbatim>\<open>([a-z]+-\w+)\<close>.\<close>

lemma ms_name_iff:
  "(s', c') \<in> set (ms (Seq (Plus g (Atom P)) (Seq (lits x) (Plus h (Atom Q)))) s c) \<longleftrightarrow>
     (\<exists>a b. s = a @ x @ b @ s' \<and> a \<noteq> [] \<and> list_all P a \<and> b \<noteq> [] \<and> list_all Q b \<and> c' = c)"
  (is "?L \<longleftrightarrow> ?R")
proof
  assume ?L
  then obtain s1 c1 s2 c2 where 1: "(s1, c1) \<in> set (ms (Plus g (Atom P)) s c)"
    and 2: "(s2, c2) \<in> set (ms (lits x) s1 c1)"
    and 3: "(s', c') \<in> set (ms (Plus h (Atom Q)) s2 c2)"
    unfolding ms_Seq_iff by blast
  from 1 obtain a where a: "s = a @ s1" "a \<noteq> []" "list_all P a" "c1 = c"
    unfolding ms_Plus_Atom_iff by blast
  from 2 have x: "s1 = x @ s2" "c2 = c1"
    unfolding ms_lits_iff by simp_all
  from 3 obtain b where b: "s2 = b @ s'" "b \<noteq> []" "list_all Q b" "c' = c2"
    unfolding ms_Plus_Atom_iff by blast
  from a x b show ?R
    by (intro exI [of _ a] exI [of _ b]) simp
next
  assume ?R
  then obtain a b where s: "s = a @ x @ b @ s'" and a: "a \<noteq> []" "list_all P a"
    and b: "b \<noteq> []" "list_all Q b" and c: "c' = c"
    by blast
  have 1: "(x @ b @ s', c) \<in> set (ms (Plus g (Atom P)) s c)"
    unfolding ms_Plus_Atom_iff using s a by blast
  have 2: "(b @ s', c) \<in> set (ms (lits x) (x @ b @ s') c)"
    unfolding ms_lits_iff by simp
  have 3: "(s', c) \<in> set (ms (Plus h (Atom Q)) (b @ s') c)"
    unfolding ms_Plus_Atom_iff using b by blast
  from 1 2 3 c show ?L
    unfolding ms_Seq_iff by blast
qed

lemma take_matched: "take (length (a @ x @ b @ s') - length s') (a @ x @ b @ s') = a @ x @ b"
  by simp

lemma ms_tag_iff:
  "(s', c') \<in> set (ms (Group i (Seq (Plus g (Atom P)) (Seq (lits x) (Plus h (Atom Q))))) s c) \<longleftrightarrow>
     (\<exists>a b. s = a @ x @ b @ s' \<and> a \<noteq> [] \<and> list_all P a \<and> b \<noteq> [] \<and> list_all Q b
        \<and> c' = c(i \<mapsto> a @ x @ b))"
  (is "?L \<longleftrightarrow> ?R")
proof
  assume ?L
  then obtain c1 where m: "(s', c1) \<in> set (ms (Seq (Plus g (Atom P)) (Seq (lits x) (Plus h (Atom Q)))) s c)"
    and c': "c' = c1(i \<mapsto> take (length s - length s') s)"
    unfolding ms_Group_iff by blast
  from m obtain a b where ab: "s = a @ x @ b @ s'" "a \<noteq> []" "list_all P a" "b \<noteq> []" "list_all Q b"
    and c1: "c1 = c"
    unfolding ms_name_iff by blast
  from c' c1 have "c' = c(i \<mapsto> a @ x @ b)"
    unfolding ab(1) take_matched by simp
  with ab show ?R
    by blast
next
  assume ?R
  then obtain a b where ab: "s = a @ x @ b @ s'" "a \<noteq> []" "list_all P a" "b \<noteq> []" "list_all Q b"
    and c': "c' = c(i \<mapsto> a @ x @ b)"
    by blast
  from ab have m: "(s', c) \<in> set (ms (Seq (Plus g (Atom P)) (Seq (lits x) (Plus h (Atom Q)))) s c)"
    unfolding ms_name_iff by blast
  have "c' = c(i \<mapsto> take (length s - length s') s)"
    unfolding ab(1) take_matched by (rule c')
  with m show ?L
    unfolding ms_Group_iff by blast
qed

text \<open>The part list \<^verbatim>\<open>(.*)?\<close>.\<close>

lemma ms_Opt_Group_iff:
  "(s', c') \<in> set (ms (Opt g (Group i (Star h (Atom P)))) s c) \<longleftrightarrow>
     (s' = s \<and> c' = c) \<or> (\<exists>l. s = l @ s' \<and> l \<noteq> [] \<and> list_all P l \<and> c' = c(i \<mapsto> l))"
  (is "?L \<longleftrightarrow> ?R")
proof
  let ?c = "reset (groups (Group i (Star h (Atom P)))) c"
  have r: "?c(i \<mapsto> l) = c(i \<mapsto> l)" for l
    by (auto simp: reset_def)
  {
    assume ?L
    then consider "s' = s \<and> c' = c"
      | "length s' < length s" "(s', c') \<in> set (ms (Group i (Star h (Atom P))) s ?c)"
      unfolding ms_Opt_iff by blast
    then show ?R
    proof cases
      case 1
      then show ?thesis by blast
    next
      case 2
      from 2(2) obtain l where l: "s = l @ s'" "list_all P l" "c' = ?c(i \<mapsto> l)"
        unfolding ms_Group_Star_iff by blast
      from 2(1) l(1) have "l \<noteq> []" by auto
      with l show ?thesis
        unfolding r by blast
    qed
  }
  {
    assume ?R
    then show ?L
    proof
      assume "s' = s \<and> c' = c"
      then show ?thesis
        unfolding ms_Opt_iff by blast
    next
      assume "\<exists>l. s = l @ s' \<and> l \<noteq> [] \<and> list_all P l \<and> c' = c(i \<mapsto> l)"
      then obtain l where l: "s = l @ s'" "l \<noteq> []" "list_all P l" "c' = c(i \<mapsto> l)"
        by blast
      from l(1,2) have "length s' < length s"
        by (cases l) auto
      moreover from l have "(s', c') \<in> set (ms (Group i (Star h (Atom P))) s ?c)"
        unfolding ms_Group_Star_iff r by blast
      ultimately show ?thesis
        unfolding ms_Opt_iff by blast
    qed
  }
qed

section \<open>Splitting at a separator\<close>

text \<open>
  The separators \<^verbatim>\<open>/\s*,\s*/\<close> and \<^verbatim>\<open>/\s*:\s*/\<close>: white space, a code unit \<open>d\<close>
  that is no white space, white space. Both stars are greedy and take all the white space
  there is, so the first way the matcher finds is the only one that counts.
\<close>

lemma ms_sepRegex:
  assumes "\<not> isWhiteSpace d"
  shows "ms (sepRegex [d]) s c =
     (case dropWhile isWhiteSpace s of
        [] \<Rightarrow> []
      | y # ys \<Rightarrow> if y = d then ms (Star True (Atom isWhiteSpace)) ys c else [])"
proof -
  let ?F = "\<lambda>s1 c1. ms (Seq (lits [d]) (Star True (Atom isWhiteSpace))) s1 c1"
  have F: "?F s1 c1 = (case s1 of [] \<Rightarrow> []
      | y # ys \<Rightarrow> if y = d then ms (Star True (Atom isWhiteSpace)) ys c1 else [])" for s1 c1
    by (cases s1) (simp_all del: ms.simps(5))
  have "ms (sepRegex [d]) s c
      = concat (map (\<lambda>(s1, c1). ?F s1 c1) (ms (Star True (Atom isWhiteSpace)) s c))"
    unfolding sepRegex_def by (subst ms.simps(3)) (rule refl)
  also have "\<dots> = ?F (dropWhile isWhiteSpace s) c"
    by (rule concat_ms_Star_Atom_greedy) (use assms in \<open>auto simp: F\<close>)
  finally show ?thesis
    by (simp only: F)
qed

lemma matchAt_sepRegex:
  assumes "\<not> isWhiteSpace d"
  shows "matchAt (sepRegex [d]) s =
     (case dropWhile isWhiteSpace s of
        [] \<Rightarrow> None
      | y # ys \<Rightarrow> if y = d then Some (length s - length (dropWhile isWhiteSpace ys)) else None)"
proof (cases "dropWhile isWhiteSpace s")
  case Nil
  show ?thesis
    unfolding matchAt_def ms_sepRegex [OF assms] Nil by simp
next
  case (Cons y ys)
  show ?thesis
  proof (cases "y = d")
    case True
    obtain r rs where r: "ms (Star True (Atom isWhiteSpace)) ys (\<lambda>_. None) = r # rs"
      using ms_Star_Atom_greedy_hd [of isWhiteSpace ys "\<lambda>_. None"]
      by (cases "ms (Star True (Atom isWhiteSpace)) ys (\<lambda>_. None)") auto
    with ms_Star_Atom_greedy_hd [of isWhiteSpace ys "\<lambda>_. None"]
    have "r = (dropWhile isWhiteSpace ys, \<lambda>_. None)" by simp
    with r True show ?thesis
      unfolding matchAt_def ms_sepRegex [OF assms] Cons by simp
  next
    case False
    then show ?thesis
      unfolding matchAt_def ms_sepRegex [OF assms] Cons by simp
  qed
qed


lemma matchAt_sepRegex_Some:
  assumes "\<not> isWhiteSpace d" and "matchAt (sepRegex [d]) s = Some n"
  shows "\<exists>a b. s = a @ d # b @ drop n s \<and> list_all isWhiteSpace a \<and> list_all isWhiteSpace b
           \<and> n = length a + 1 + length b"
proof (cases "dropWhile isWhiteSpace s")
  case Nil
  with assms(2) show ?thesis
    by (simp only: matchAt_sepRegex [OF assms(1)] list.case option.distinct)
next
  case (Cons y ys)
  have "(if y = d then Some (length s - length (dropWhile isWhiteSpace ys)) else None) = Some n"
    using assms(2) by (simp only: matchAt_sepRegex [OF assms(1)] Cons list.case)
  then have yd: "y = d" and n: "n = length s - length (dropWhile isWhiteSpace ys)"
    by (simp_all split: if_splits)
  define a where "a = takeWhile isWhiteSpace s"
  define b where "b = takeWhile isWhiteSpace ys"
  define r where "r = dropWhile isWhiteSpace ys"
  have wa: "list_all isWhiteSpace a" and wb: "list_all isWhiteSpace b"
    by (auto simp: a_def b_def list_all_iff dest: set_takeWhileD)
  have "a @ dropWhile isWhiteSpace s = s"
    unfolding a_def by (rule takeWhile_dropWhile_id)
  then have s1: "a @ d # ys = s"
    unfolding Cons yd .
  have "b @ r = ys"
    unfolding b_def r_def by (rule takeWhile_dropWhile_id)
  with s1 have s2: "s = a @ d # b @ r"
    by simp
  have n': "n = length a + 1 + length b"
    unfolding n r_def [symmetric] by (simp add: s2)
  have "drop n (a @ d # b @ r) = r"
    by (simp add: n')
  then have "drop n s = r"
    by (simp add: s2)
  with s2 have "s = a @ d # b @ drop n s"
    by simp
  with wa wb n' show ?thesis
    by blast
qed

lemma matchAt_sepRegex_positive:
  assumes "\<not> isWhiteSpace d" and "matchAt (sepRegex [d]) s = Some n"
  shows "0 < n" and "count_list s d = Suc (count_list (drop n s) d)"
proof -
  from matchAt_sepRegex_Some [OF assms] obtain a b where s: "s = a @ d # b @ drop n s"
    and ws: "list_all isWhiteSpace a" "list_all isWhiteSpace b" and n: "n = length a + 1 + length b"
    by blast
  from n show "0 < n" by simp
  from ws assms(1) have "d \<notin> set a" "d \<notin> set b"
    by (auto simp: list_all_iff)
  then have "count_list a d = 0" "count_list b d = 0"
    by (simp_all add: count_list_0_iff)
  then have "count_list (a @ d # b @ drop n s) d = Suc (count_list (drop n s) d)"
    by simp
  then show "count_list s d = Suc (count_list (drop n s) d)"
    unfolding s [symmetric] .
qed

lemma matchAt_sepRegex_None:
  assumes "\<not> isWhiteSpace d" and "matchAt (sepRegex [d]) (x # xs) = None"
  shows "x \<noteq> d"
proof
  assume "x = d"
  have "matchAt (sepRegex [d]) (d # xs) \<noteq> None"
    by (simp add: matchAt_sepRegex assms(1))
  with assms(2) \<open>x = d\<close> show False
    by simp
qed

lemma matchAt_sepRegex_absent:
  assumes "\<not> isWhiteSpace d" and "d \<notin> set s"
  shows "matchAt (sepRegex [d]) s = None"
proof (cases "dropWhile isWhiteSpace s")
  case Nil
  show ?thesis
    by (simp only: matchAt_sepRegex [OF assms(1)] Nil list.case)
next
  case (Cons y ys)
  have "y \<in> set (dropWhile isWhiteSpace s)"
    unfolding Cons by simp
  then have "y \<in> set s"
    by (rule set_dropWhileD)
  with assms(2) have "y \<noteq> d" by blast
  then show ?thesis
    by (simp only: matchAt_sepRegex [OF assms(1)] Cons list.case if_False)
qed

text \<open>The pieces of a split.\<close>

lemma splitLoop_subset:
  "piece \<in> set (splitLoop r cur rest) \<Longrightarrow> set piece \<subseteq> set cur \<union> set rest"
proof (induction r cur rest rule: splitLoop.induct)
  case (1 r cur)
  then show ?case by simp
next
  case (2 r cur x xs)
  show ?case
  proof (cases "matchAt r (x # xs)")
    case None
    with 2 show ?thesis by auto
  next
    case (Some n)
    show ?thesis
    proof (cases "n = 0 \<and> cur = []")
      case True
      with 2 Some show ?thesis by auto
    next
      case False
      with "2.prems" Some have "piece = cur \<or> piece \<in> set (splitLoop r [] (drop n (x # xs)))"
        by auto
      then show ?thesis
      proof
        assume "piece = cur"
        then show ?thesis by auto
      next
        assume "piece \<in> set (splitLoop r [] (drop n (x # xs)))"
        with "2.IH"(3) [OF Some False] have "set piece \<subseteq> set (drop n (x # xs))"
          by simp
        moreover have "set (drop n (x # xs)) \<subseteq> set (x # xs)"
          by (rule set_drop_subset)
        ultimately show ?thesis by blast
      qed
    qed
  qed
qed

lemma splitLoop_sep_free:
  assumes "\<not> isWhiteSpace d"
  shows "d \<notin> set cur \<Longrightarrow> piece \<in> set (splitLoop (sepRegex [d]) cur rest) \<Longrightarrow> d \<notin> set piece"
proof (induction "sepRegex [d]" cur rest rule: splitLoop.induct)
  case (1 cur)
  then show ?case by simp
next
  case (2 cur x xs)
  show ?case
  proof (cases "matchAt (sepRegex [d]) (x # xs)")
    case None
    with matchAt_sepRegex_None [OF assms this] 2 show ?thesis by auto
  next
    case (Some n)
    with matchAt_sepRegex_positive(1) [OF assms Some] 2 show ?thesis by auto
  qed
qed

lemma splitLoop_sep_length:
  assumes "\<not> isWhiteSpace d"
  shows "length (splitLoop (sepRegex [d]) cur rest) = Suc (count_list rest d)"
proof (induction "sepRegex [d]" cur rest rule: splitLoop.induct)
  case (1 cur)
  then show ?case by simp
next
  case (2 cur x xs)
  show ?case
  proof (cases "matchAt (sepRegex [d]) (x # xs)")
    case None
    with matchAt_sepRegex_None [OF assms this] 2 show ?thesis by auto
  next
    case (Some n)
    with matchAt_sepRegex_positive [OF assms Some] 2 show ?thesis by auto
  qed
qed

lemma splitLoop_sep_absent:
  assumes "\<not> isWhiteSpace d"
  shows "d \<notin> set rest \<Longrightarrow> splitLoop (sepRegex [d]) cur rest = [cur @ rest]"
proof (induction rest arbitrary: cur)
  case Nil
  then show ?case by simp
next
  case (Cons x xs)
  from Cons.prems have "matchAt (sepRegex [d]) (x # xs) = None"
    by (intro matchAt_sepRegex_absent assms)
  with Cons show ?case by simp
qed

lemma String_split_sep_free:
  assumes "\<not> isWhiteSpace d" and "piece \<in> set (String_split (sepRegex [d]) s)"
  shows "d \<notin> set piece"
  using assms splitLoop_sep_free [OF assms(1), of "[]" piece s]
  by (auto simp: String_split_def split: if_splits)

lemma String_split_subset:
  "piece \<in> set (String_split r s) \<Longrightarrow> set piece \<subseteq> set s"
  using splitLoop_subset [of piece r "[]" s]
  by (auto simp: String_split_def split: if_splits)

lemma String_split_sep_length:
  assumes "\<not> isWhiteSpace d"
  shows "length (String_split (sepRegex [d]) s) = Suc (count_list s d)"
  using splitLoop_sep_length [OF assms, of "[]" s] matchAt_sepRegex_absent [OF assms, of "[]"]
  by (auto simp: String_split_def)

lemma String_split_sep_absent:
  assumes "\<not> isWhiteSpace d" and "d \<notin> set s"
  shows "String_split (sepRegex [d]) s = [s]"
  using splitLoop_sep_absent [OF assms, of "[]"] matchAt_sepRegex_absent [OF assms(1), of "[]"]
  by (auto simp: String_split_def)

section \<open>The pairs of an \<^verbatim>\<open>exportparts\<close> attribute\<close>

lemma str_comma: "str '','' = [0x2C]"
  by (simp add: str_def)

lemma str_colon: "str '':'' = [0x3A]"
  by (simp add: str_def)

lemma comma_not_space: "\<not> isWhiteSpace 0x2C"
  by (simp add: isWhiteSpace_def isLineTerminator_def)

lemma colon_not_space: "\<not> isWhiteSpace 0x3A"
  by (simp add: isWhiteSpace_def isLineTerminator_def)

lemma list_shape:
  obtains (none) "xs = []" | (one) a where "xs = [a]" | (two) a b where "xs = [a, b]"
    | (more) a b c r where "xs = a # b # c # r"
  by (metis list.exhaust)

lemma exportPartsLoop_append:
  "exportPartsLoop (ts1 @ ts2) acc = exportPartsLoop ts2 (exportPartsLoop ts1 acc)"
  by (induction ts1 arbitrary: acc) (simp_all split: list.splits)

lemma exportPartsLoop_drop:
  assumes "2 \<le> count_list t 0x3A"
  shows "exportPartsLoop (t # ts) acc = exportPartsLoop ts acc"
proof -
  have "length (String_split (sepRegex (str '':'')) t) = Suc (count_list t 0x3A)"
    unfolding str_colon by (rule String_split_sep_length [OF colon_not_space])
  with assms have "3 \<le> length (String_split (sepRegex (str '':'')) t)"
    by simp
  then obtain a b c r where "String_split (sepRegex (str '':'')) t = a # b # c # r"
    by (auto simp: numeral_3_eq_3 Suc_le_length_iff)
  then show ?thesis
    by simp
qed

lemma exportPartsLoop_pieces:
  "p \<in> set (exportPartsLoop ts acc) \<Longrightarrow>
     p \<in> set acc \<or> (\<exists>t \<in> set ts. inner p \<in> set (String_split (sepRegex (str '':'')) t)
                         \<and> outer p \<in> set (String_split (sepRegex (str '':'')) t))"
proof (induction ts arbitrary: acc)
  case Nil
  then show ?case by simp
next
  case (Cons t ts)
  let ?sp = "String_split (sepRegex (str '':'')) t"
  show ?case
  proof (cases ?sp rule: list_shape)
    case none
    with Cons.prems have "p \<in> set (exportPartsLoop ts acc)"
      by simp
    from Cons.IH [OF this] show ?thesis
      by auto
  next
    case (one a)
    with Cons.prems have "p \<in> set (exportPartsLoop ts (acc @ [\<lparr>inner = a, outer = a\<rparr>]))"
      by simp
    from Cons.IH [OF this] one show ?thesis
      by auto
  next
    case (two a b)
    with Cons.prems have "p \<in> set (exportPartsLoop ts (acc @ [\<lparr>inner = a, outer = b\<rparr>]))"
      by simp
    from Cons.IH [OF this] two show ?thesis
      by auto
  next
    case (more a b c r)
    with Cons.prems have "p \<in> set (exportPartsLoop ts acc)"
      by simp
    from Cons.IH [OF this] show ?thesis
      by auto
  qed
qed

lemma parseExportPartsAttribute_free:
  assumes "p \<in> set (parseExportPartsAttribute a)" and "x = inner p \<or> x = outer p"
  shows "0x2C \<notin> set x \<and> 0x3A \<notin> set x"
proof -
  from assms(1) obtain s where p: "p \<in> set (exportPartsLoop (String_split (sepRegex (str '','')) s) [])"
    by (auto simp: parseExportPartsAttribute_def split: option.splits if_splits)
  from exportPartsLoop_pieces [OF p] obtain t
    where t: "t \<in> set (String_split (sepRegex (str '','')) s)"
      and i: "inner p \<in> set (String_split (sepRegex (str '':'')) t)"
      and out: "outer p \<in> set (String_split (sepRegex (str '':'')) t)"
    by auto
  from i out assms(2) have x: "x \<in> set (String_split (sepRegex (str '':'')) t)"
    by auto
  from t have "0x2C \<notin> set t"
    unfolding str_comma by (rule String_split_sep_free [OF comma_not_space])
  with String_split_subset [OF x] have "0x2C \<notin> set x"
    by blast
  moreover from x have "0x3A \<notin> set x"
    unfolding str_colon by (rule String_split_sep_free [OF colon_not_space])
  ultimately show ?thesis
    by simp
qed


section \<open>The pattern of part selectors\<close>

lemma ms_PART_REGEX_sound:
  assumes "(s', c') \<in> set (ms PART_REGEX s c)"
  shows "\<exists>u a b w l. s = u @ a @ str ''-'' @ b @ w @ str ''::part('' @ l @ str '')'' @ s'
      \<and> list_all isDot u \<and> a \<noteq> [] \<and> list_all isLower a \<and> b \<noteq> [] \<and> list_all isWord b
      \<and> list_all notWhiteSpace w \<and> list_all isDot l
      \<and> (c' = c(1 \<mapsto> u, 2 \<mapsto> a @ str ''-'' @ b, 3 \<mapsto> w, 4 \<mapsto> l)
          \<or> l = [] \<and> c' = c(1 \<mapsto> u, 2 \<mapsto> a @ str ''-'' @ b, 3 \<mapsto> w))"
proof -
  from assms obtain s1 c1 s2 c2 s3 c3 s4 c4 s5 c5 where
    g1: "(s1, c1) \<in> set (ms (Group 1 (Star False (Atom isDot))) s c)"
    and g2: "(s2, c2) \<in> set (ms (Group 2 (Seq (Plus True (Atom isLower))
                (Seq (lits (str ''-'')) (Plus True (Atom isWord))))) s1 c1)"
    and g3: "(s3, c3) \<in> set (ms (Group 3 (Star False (Atom notWhiteSpace))) s2 c2)"
    and l1: "(s4, c4) \<in> set (ms (lits (str ''::part('')) s3 c3)"
    and o: "(s5, c5) \<in> set (ms (Opt True (Group 4 (Star True (Atom isDot)))) s4 c4)"
    and l2: "(s', c') \<in> set (ms (lits (str '')'')) s5 c5)"
    unfolding PART_REGEX_def ms_Seq_iff by blast
  from g1 obtain u where u: "s = u @ s1" "list_all isDot u" "c1 = c(1 \<mapsto> u)"
    unfolding ms_Group_Star_iff by blast
  from g2 obtain a b where ab: "s1 = a @ str ''-'' @ b @ s2" "a \<noteq> []" "list_all isLower a"
    "b \<noteq> []" "list_all isWord b" "c2 = c1(2 \<mapsto> a @ str ''-'' @ b)"
    unfolding ms_tag_iff by blast
  from g3 obtain w where w: "s2 = w @ s3" "list_all notWhiteSpace w" "c3 = c2(3 \<mapsto> w)"
    unfolding ms_Group_Star_iff by blast
  from l1 have p: "s3 = str ''::part('' @ s4" "c4 = c3"
    unfolding ms_lits_iff by simp_all
  from l2 have q: "s5 = str '')'' @ s'" "c' = c5"
    unfolding ms_lits_iff by simp_all
  from o consider "s5 = s4" "c5 = c4"
    | l where "s4 = l @ s5" "l \<noteq> []" "list_all isDot l" "c5 = c4(4 \<mapsto> l)"
    unfolding ms_Opt_Group_iff by blast
  then show ?thesis
  proof cases
    case 1
    have "s = u @ a @ str ''-'' @ b @ w @ str ''::part('' @ [] @ str '')'' @ s'"
      unfolding u(1) ab(1) w(1) p(1) 1(1) [symmetric] q(1) by simp
    moreover have "c' = c(1 \<mapsto> u, 2 \<mapsto> a @ str ''-'' @ b, 3 \<mapsto> w)"
      unfolding q(2) 1(2) p(2) w(3) ab(6) u(3) by (rule refl)
    ultimately show ?thesis
      using u(2) ab(2-5) w(2) by (intro exI [of _ u] exI [of _ a] exI [of _ b] exI [of _ w] exI [of _ "[]"]) simp
  next
    case (2 l)
    have "s = u @ a @ str ''-'' @ b @ w @ str ''::part('' @ l @ str '')'' @ s'"
      unfolding u(1) ab(1) w(1) p(1) 2(1) q(1) by simp
    moreover have "c' = c(1 \<mapsto> u, 2 \<mapsto> a @ str ''-'' @ b, 3 \<mapsto> w, 4 \<mapsto> l)"
      unfolding q(2) 2(4) p(2) w(3) ab(6) u(3) by (rule refl)
    ultimately show ?thesis
      using u(2) ab(2-5) w(2) 2(3) by (intro exI [of _ u] exI [of _ a] exI [of _ b] exI [of _ w] exI [of _ l]) simp
  qed
qed

lemma ms_PART_REGEX_complete:
  assumes "a \<noteq> []" "list_all isLower a" "b \<noteq> []" "list_all isWord b"
    "list_all notWhiteSpace w" "list_all isDot l"
  shows "ms PART_REGEX (a @ str ''-'' @ b @ w @ str ''::part('' @ l @ str '')'' @ t) c \<noteq> []"
proof -
  let ?s1 = "a @ str ''-'' @ b @ w @ str ''::part('' @ l @ str '')'' @ t"
  let ?s2 = "w @ str ''::part('' @ l @ str '')'' @ t"
  let ?s3 = "str ''::part('' @ l @ str '')'' @ t"
  let ?s4 = "l @ str '')'' @ t"
  let ?s5 = "str '')'' @ t"
  let ?c1 = "c(1 \<mapsto> [])"
  let ?c2 = "?c1(2 \<mapsto> a @ str ''-'' @ b)"
  let ?c3 = "?c2(3 \<mapsto> w)"
  have g1: "(?s1, ?c1) \<in> set (ms (Group 1 (Star False (Atom isDot))) ?s1 c)"
    unfolding ms_Group_Star_iff by (intro exI [of _ "[]"]) simp
  have g2: "(?s2, ?c2) \<in> set (ms (Group 2 (Seq (Plus True (Atom isLower))
                (Seq (lits (str ''-'')) (Plus True (Atom isWord))))) ?s1 ?c1)"
    unfolding ms_tag_iff using assms(1-4) by blast
  have g3: "(?s3, ?c3) \<in> set (ms (Group 3 (Star False (Atom notWhiteSpace))) ?s2 ?c2)"
    unfolding ms_Group_Star_iff using assms(5) by blast
  have l1: "(?s4, ?c3) \<in> set (ms (lits (str ''::part('')) ?s3 ?c3)"
    unfolding ms_lits_iff by simp
  have "\<exists>c5. (?s5, c5) \<in> set (ms (Opt True (Group 4 (Star True (Atom isDot)))) ?s4 ?c3)"
  proof (cases "l = []")
    case True
    then have "(?s5, ?c3) \<in> set (ms (Opt True (Group 4 (Star True (Atom isDot)))) ?s4 ?c3)"
      unfolding ms_Opt_Group_iff by simp
    then show ?thesis by blast
  next
    case False
    with assms(6) have "(?s5, ?c3(4 \<mapsto> l)) \<in> set (ms (Opt True (Group 4 (Star True (Atom isDot)))) ?s4 ?c3)"
      unfolding ms_Opt_Group_iff by blast
    then show ?thesis by blast
  qed
  then obtain c5 where o: "(?s5, c5) \<in> set (ms (Opt True (Group 4 (Star True (Atom isDot)))) ?s4 ?c3)"
    by blast
  have l2: "(t, c5) \<in> set (ms (lits (str '')'')) ?s5 c5)"
    unfolding ms_lits_iff by simp
  from g1 g2 g3 l1 o l2 have "(t, c5) \<in> set (ms PART_REGEX ?s1 c)"
    unfolding PART_REGEX_def ms_Seq_iff by blast
  then show ?thesis
    by (metis empty_iff empty_set)
qed

text \<open>The search of \<^verbatim>\<open>match\<close> for the first index with a match.\<close>

lemma RegExp_exec_sound:
  "RegExp_exec r s = Some c \<Longrightarrow> \<exists>v s1 s'. s = v @ s1 \<and> (s', c) \<in> set (ms r s1 (\<lambda>_. None))"
proof (induction s)
  case Nil
  then obtain s' rest where "ms r [] (\<lambda>_. None) = (s', c) # rest"
    by (auto split: list.splits)
  then have "(s', c) \<in> set (ms r [] (\<lambda>_. None))"
    by simp
  then show ?case
    by (intro exI [of _ "[]"] exI [of _ s']) simp
next
  case (Cons x xs)
  show ?case
  proof (cases "ms r (x # xs) (\<lambda>_. None)")
    case Nil
    with Cons.prems have "RegExp_exec r xs = Some c"
      by simp
    from Cons.IH [OF this] obtain v s1 s' where "xs = v @ s1" "(s', c) \<in> set (ms r s1 (\<lambda>_. None))"
      by blast
    then show ?thesis
      by (intro exI [of _ "x # v"] exI [of _ s1] exI [of _ s']) simp
  next
    case (Cons m rest)
    with Cons.prems obtain s' where "m = (s', c)"
      by (cases m) auto
    with Cons have "(s', c) \<in> set (ms r (x # xs) (\<lambda>_. None))"
      by simp
    then show ?thesis
      by (intro exI [of _ "[]"] exI [of _ "x # xs"] exI [of _ s']) simp
  qed
qed

lemma RegExp_exec_complete:
  "ms r s1 (\<lambda>_. None) \<noteq> [] \<Longrightarrow> RegExp_exec r (v @ s1) \<noteq> None"
proof (induction v)
  case Nil
  then show ?case
    by (cases s1) (auto split: list.splits)
next
  case (Cons x v)
  then show ?case
    by (auto split: list.splits)
qed

lemma parsePartSelector_captures:
  assumes "parsePartSelector sel = Some r"
  shows "\<exists>v u a b w l t. sel = v @ u @ a @ str ''-'' @ b @ w @ str ''::part('' @ l @ str '')'' @ t
      \<and> list_all isDot u \<and> a \<noteq> [] \<and> list_all isLower a \<and> b \<noteq> [] \<and> list_all isWord b
      \<and> list_all notWhiteSpace w \<and> list_all isDot l
      \<and> pre r = Some u \<and> ce r = Some (a @ str ''-'' @ b) \<and> post r = Some w
      \<and> (partList r = Some l \<or> l = [] \<and> partList r = None)"
proof -
  from assms obtain c where c: "RegExp_exec PART_REGEX sel = Some c"
    and r: "r = \<lparr>pre = c 1, ce = c 2, post = c 3, partList = c 4\<rparr>"
    by (auto simp: parsePartSelector_def split: option.splits)
  from RegExp_exec_sound [OF c] obtain v s1 t where v: "sel = v @ s1"
    and m: "(t, c) \<in> set (ms PART_REGEX s1 (\<lambda>_. None))"
    by blast
  from ms_PART_REGEX_sound [OF m] obtain u a b w l where
    s1: "s1 = u @ a @ str ''-'' @ b @ w @ str ''::part('' @ l @ str '')'' @ t"
    and p: "list_all isDot u" "a \<noteq> []" "list_all isLower a" "b \<noteq> []" "list_all isWord b"
      "list_all notWhiteSpace w" "list_all isDot l"
    and cs: "c = (\<lambda>_. None)(1 \<mapsto> u, 2 \<mapsto> a @ str ''-'' @ b, 3 \<mapsto> w, 4 \<mapsto> l)
          \<or> l = [] \<and> c = (\<lambda>_. None)(1 \<mapsto> u, 2 \<mapsto> a @ str ''-'' @ b, 3 \<mapsto> w)"
    by blast
  from cs have "pre r = Some u \<and> ce r = Some (a @ str ''-'' @ b) \<and> post r = Some w
      \<and> (partList r = Some l \<or> l = [] \<and> partList r = None)"
    by (auto simp: r)
  with v s1 p show ?thesis
    by blast
qed

lemma parsePartSelector_matches:
  "parsePartSelector sel \<noteq> None \<longleftrightarrow>
     (\<exists>v a b w l t. sel = v @ a @ str ''-'' @ b @ w @ str ''::part('' @ l @ str '')'' @ t
        \<and> a \<noteq> [] \<and> list_all isLower a \<and> b \<noteq> [] \<and> list_all isWord b
        \<and> list_all notWhiteSpace w \<and> list_all isDot l)"
  (is "?L \<longleftrightarrow> ?R")
proof
  assume ?L
  then obtain r where "parsePartSelector sel = Some r"
    by blast
  from parsePartSelector_captures [OF this] obtain v u a b w l t where
    sel: "sel = v @ u @ a @ str ''-'' @ b @ w @ str ''::part('' @ l @ str '')'' @ t"
    and p: "a \<noteq> []" "list_all isLower a" "b \<noteq> []" "list_all isWord b"
      "list_all notWhiteSpace w" "list_all isDot l"
    by blast
  from sel have "sel = (v @ u) @ a @ str ''-'' @ b @ w @ str ''::part('' @ l @ str '')'' @ t"
    by simp
  with p show ?R
    by blast
next
  assume ?R
  then obtain v a b w l t where
    sel: "sel = v @ a @ str ''-'' @ b @ w @ str ''::part('' @ l @ str '')'' @ t"
    and p: "a \<noteq> []" "list_all isLower a" "b \<noteq> []" "list_all isWord b"
      "list_all notWhiteSpace w" "list_all isDot l"
    by blast
  have "ms PART_REGEX (a @ str ''-'' @ b @ w @ str ''::part('' @ l @ str '')'' @ t) (\<lambda>_. None) \<noteq> []"
    using p by (rule ms_PART_REGEX_complete)
  then have "RegExp_exec PART_REGEX sel \<noteq> None"
    unfolding sel by (rule RegExp_exec_complete)
  then show ?L
    by (auto simp: parsePartSelector_def)
qed


section \<open>Claims\<close>

text \<open>
  C1, as the claim states it, fails: after \<^verbatim>\<open>scopeAllHostParts\<close> has run bottom-up over
  the worked example, the \<^verbatim>\<open>shady-part\<close> attribute of the element with
  \<^verbatim>\<open>part="c1"\<close> is not the three specifiers \<^verbatim>\<open>part_x-b_x-c_c1\<close>,
  \<^verbatim>\<open>part_x-a_x-b_b2\<close>, \<^verbatim>\<open>part_document_x-a_a3\<close>.
\<close>

theorem C1_part_prefix_counterexample:
  "attributeAfter (bottomUp example) 9 (str ''shady-part'')
     \<noteq> Some (Some (str ''part_x-b_x-c_c1 part_x-a_x-b_b2 part_document_x-a_a3''))"
  by code_simp

text \<open>
  C1, amended: after \<^verbatim>\<open>scopeAllHostParts\<close> has run bottom-up over the worked example,
  the element with \<^verbatim>\<open>part="c1"\<close> carries exactly the three specifiers
  \<^verbatim>\<open>x-b_x-c_c1\<close>, \<^verbatim>\<open>x-a_x-b_b2\<close>, \<^verbatim>\<open>document_x-a_a3\<close>, in that order:
  \<^verbatim>\<open>formatPartSpecifier\<close> puts no \<^verbatim>\<open>part_\<close> in front.
\<close>

theorem C1_worked_example:
  "attributeAfter (bottomUp example) 9 (str ''shady-part'')
     = Some (Some (str ''x-b_x-c_c1 x-a_x-b_b2 document_x-a_a3''))"
  by code_simp

text \<open>
  C2, as the claim states it, fails: \<^verbatim>\<open><x-b exportparts="b1:a2,b2:a3">\<close> inside the
  shadow root of an \<^verbatim>\<open><x-a>\<close> that is in no document has the attribute and a root
  other than the document, and \<^verbatim>\<open>getExportPartsMap\<close> returns a map with no entry for
  \<^verbatim>\<open>b1\<close> (the scope of the root of \<^verbatim>\<open>x-a\<close> is undefined, line 448).
\<close>

theorem C2_detached_counterexample:
  "getAttribute detached 4 (str ''exportparts'') = Some (str ''b1:a2,b2:a3'')
   \<and> rootNode detached 4 \<noteq> document detached
   \<and> exportEntriesAfter (getExportPartsMap detached 4) (str ''b1'') = Some None"
  by code_simp

text \<open>
  C2, amended: \<^verbatim>\<open>getExportPartsMap(host)\<close> returns an empty map when the host has no
  \<^verbatim>\<open>exportparts\<close> attribute, when the host's root is the document, and when the scope of
  the root of the super-host (the host of the host's root) is undefined. Otherwise, when
  the call on the super-host returns a map and no locally declared inner or outer name is
  a property of \<^verbatim>\<open>Object.prototype\<close>, the entry list of a part name is made of the
  locally declared pairs with that inner name, in order: for each of them the entry
  \<open>{hostScope, scope, partName: outer}\<close>, with \<open>scope\<close> the super-host's tag name and
  \<open>hostScope\<close> the scope of the super-host's root, followed, when \<open>outer\<close> is a key of
  the super-host's map, by the entries of that list in order; a name that no pair declares
  has no entry.
\<close>

theorem C2_export_parts_map:
  "(getAttribute s h (str ''exportparts'') = None \<longrightarrow> getExportPartsMap s h = Some (Ok Map.empty))
   \<and> (rootNode s h = document s \<longrightarrow> getExportPartsMap s h = Some (Ok Map.empty))
   \<and> (getAttribute s h (str ''exportparts'') = Some a \<and> rootNode s h \<noteq> document s
        \<and> host s (rootNode s h) = Some sh \<longrightarrow>
         (scopeForRoot s (rootNode s sh) = None \<longrightarrow> getExportPartsMap s h = Some (Ok Map.empty))
       \<and> (scopeForRoot s (rootNode s sh) = Some hs \<and> getExportPartsMap s sh = Some (Ok superExports)
            \<and> (\<forall>p \<in> set (parseExportPartsAttribute (Some a)).
                  inner p \<notin> set Object_prototype \<and> outer p \<notin> set Object_prototype) \<longrightarrow>
            (\<exists>m. getExportPartsMap s h = Some (Ok m)
               \<and> (\<forall>k. m k = exportedEntries hs (localName s sh) superExports
                              (parseExportPartsAttribute (Some a)) k))))"
proof -
  note unfold = getExportPartsMap.simps [of s h]
  have absent: "getAttribute s h (str ''exportparts'') = None \<longrightarrow>
      getExportPartsMap s h = Some (Ok Map.empty)"
    by (subst unfold) simp
  have top: "rootNode s h = document s \<longrightarrow> getExportPartsMap s h = Some (Ok Map.empty)"
    by (subst unfold) (simp split: option.splits)
  have unscoped: "getExportPartsMap s h = Some (Ok Map.empty)"
    if "getAttribute s h (str ''exportparts'') = Some a" "rootNode s h \<noteq> document s"
      "host s (rootNode s h) = Some sh" "scopeForRoot s (rootNode s sh) = None"
    by (subst unfold) (simp add: that)
  have scoped: "\<exists>m. getExportPartsMap s h = Some (Ok m)
        \<and> (\<forall>k. m k = exportedEntries hs (localName s sh) superExports
                       (parseExportPartsAttribute (Some a)) k)"
    if "getAttribute s h (str ''exportparts'') = Some a" "rootNode s h \<noteq> document s"
      "host s (rootNode s h) = Some sh" "scopeForRoot s (rootNode s sh) = Some hs"
      "getExportPartsMap s sh = Some (Ok superExports)"
      "\<forall>p \<in> set (parseExportPartsAttribute (Some a)).
         inner p \<notin> set Object_prototype \<and> outer p \<notin> set Object_prototype"
  proof -
    from exportPartsMapLoop_lookup [OF that(6), of hs "localName s sh" superExports Map.empty]
    obtain m where run: "exportPartsMapLoop hs (localName s sh) superExports
          (parseExportPartsAttribute (Some a)) Map.empty = Ok m"
      and look: "\<And>k. m k = (case exportedEntries hs (localName s sh) superExports
                       (parseExportPartsAttribute (Some a)) k of
                  None \<Rightarrow> Map.empty k
                | Some new \<Rightarrow> Some ((case Map.empty k of None \<Rightarrow> [] | Some a \<Rightarrow> a) @ new))"
      by blast
    have "m k = exportedEntries hs (localName s sh) superExports
                       (parseExportPartsAttribute (Some a)) k" for k
      by (simp add: look split: option.splits)
    with run show ?thesis
      by (subst unfold) (simp add: that)
  qed
  from absent top unscoped scoped show ?thesis
    by blast
qed

theorem C2_witness:
  "getAttribute example 1 (str ''exportparts'') = None
   \<and> getExportPartsMap example 1 = Some (Ok Map.empty)
   \<and> getAttribute detached 4 (str ''exportparts'') = Some (str ''b1:a2,b2:a3'')
   \<and> rootNode detached 4 \<noteq> document detached \<and> host detached (rootNode detached 4) = Some 1
   \<and> scopeForRoot detached (rootNode detached 1) = None
   \<and> getExportPartsMap detached 4 = Some (Ok Map.empty)
   \<and> getAttribute example 7 (str ''exportparts'') = Some (str ''c1:b2'')
   \<and> rootNode example 7 \<noteq> document example \<and> host example (rootNode example 7) = Some 4
   \<and> scopeForRoot example (rootNode example 4) = Some (str ''x-a'')
   \<and> (\<exists>superExports m.
        getExportPartsMap example 4 = Some (Ok superExports)
      \<and> getExportPartsMap example 7 = Some (Ok m)
      \<and> m (str ''c1'') =
          Some [\<lparr>partName = str ''b2'', scope = str ''x-b'', hostScope = str ''x-a''\<rparr>,
                \<lparr>partName = str ''a3'', scope = str ''x-a'', hostScope = str ''document''\<rparr>])"
proof -
  have a1: "getAttribute example 1 (str ''exportparts'') = None"
    by code_simp
  have d: "getAttribute detached 4 (str ''exportparts'') = Some (str ''b1:a2,b2:a3'')"
    "rootNode detached 4 \<noteq> document detached" "host detached (rootNode detached 4) = Some 1"
    "scopeForRoot detached (rootNode detached 1) = None"
    by code_simp+
  have e: "getAttribute example 7 (str ''exportparts'') = Some (str ''c1:b2'')"
    "rootNode example 7 \<noteq> document example" "host example (rootNode example 7) = Some 4"
    "scopeForRoot example (rootNode example 4) = Some (str ''x-a'')"
    by code_simp+
  have "exportEntriesAfter (getExportPartsMap example 4) (str ''b2'')
      = Some (Some [\<lparr>partName = str ''a3'', scope = str ''x-a'', hostScope = str ''document''\<rparr>])"
    by code_simp
  then obtain superExports where s4: "getExportPartsMap example 4 = Some (Ok superExports)"
    and b2: "superExports (str ''b2'')
      = Some [\<lparr>partName = str ''a3'', scope = str ''x-a'', hostScope = str ''document''\<rparr>]"
    by (auto simp: exportEntriesAfter_def split: option.splits result.splits)
  have p: "parseExportPartsAttribute (Some (str ''c1:b2''))
      = [\<lparr>inner = str ''c1'', outer = str ''b2''\<rparr>]"
    by code_simp
  have n: "localName example 4 = str ''x-b''"
    by code_simp
  have "str ''c1'' \<notin> set Object_prototype" "str ''b2'' \<notin> set Object_prototype"
    by code_simp+
  then have names: "\<forall>p \<in> set (parseExportPartsAttribute (Some (str ''c1:b2''))).
      inner p \<notin> set Object_prototype \<and> outer p \<notin> set Object_prototype"
    by (simp add: p)
  from C2_export_parts_map [of example 7 "str ''c1:b2''" 4 "str ''x-a''" superExports] e s4 names
  obtain m where m: "getExportPartsMap example 7 = Some (Ok m)"
    "\<And>k. m k = exportedEntries (str ''x-a'') (localName example 4) superExports
                  (parseExportPartsAttribute (Some (str ''c1:b2''))) k"
    by blast
  have "m (str ''c1'') =
          Some [\<lparr>partName = str ''b2'', scope = str ''x-b'', hostScope = str ''x-a''\<rparr>,
                \<lparr>partName = str ''a3'', scope = str ''x-a'', hostScope = str ''document''\<rparr>]"
    by (simp add: m(2) p n b2 exportedEntries_def)
  with a1 d e s4 m(1)
    C2_export_parts_map [of example 1] C2_export_parts_map [of detached 4 "str ''b1:a2,b2:a3''" 1]
  show ?thesis
    by blast
qed

text \<open>
  C3: the code does not do what the claim says. For an attribute of white space only,
  \<^verbatim>\<open>part=" "\<close>, the guard \<^verbatim>\<open>!attr\<close> does not hold, \<^verbatim>\<open>trim\<close> leaves the empty
  string, and \<^verbatim>\<open>"".split(/\s+/)\<close> is the array of the empty string: the result holds
  one empty token, where an attribute with a name in it gives the names and no empty
  token, and \<^verbatim>\<open>null\<close> gives none.
\<close>

theorem C3_whitespace_only:
  "parsePartAttribute (Some (str '' '')) = [[]]
   \<and> parsePartAttribute (Some (str '' foo  bar '')) = [str ''foo'', str ''bar'']
   \<and> parsePartAttribute None = []"
  by code_simp

text \<open>
  C4, as the claim states it, fails: the attribute \<^verbatim>\<open>"a,"\<close> gives a second element
  whose inner and outer names are empty.
\<close>

theorem C4_empty_names_counterexample:
  "parseExportPartsAttribute (Some (str ''a,'')) =
     [\<lparr>inner = str ''a'', outer = str ''a''\<rparr>, \<lparr>inner = [], outer = []\<rparr>]"
  by code_simp

text \<open>
  C4, amended: the inner and the outer name of every element of
  \<^verbatim>\<open>parseExportPartsAttribute(s)\<close> hold neither a comma nor a colon (they can be
  empty); \<^verbatim>\<open>"a,b:c"\<close> gives \<open>{a, a}\<close> and \<open>{b, c}\<close>; and a token between commas that
  holds more than one colon is left out, the result being that of the tokens before it and
  the tokens after it.
\<close>

theorem C4_export_parts_attribute:
  "(\<forall>p \<in> set (parseExportPartsAttribute a).
       0x2C \<notin> set (inner p) \<and> 0x3A \<notin> set (inner p) \<and> 0x2C \<notin> set (outer p) \<and> 0x3A \<notin> set (outer p))
   \<and> parseExportPartsAttribute (Some (str ''a,b:c'')) =
       [\<lparr>inner = str ''a'', outer = str ''a''\<rparr>, \<lparr>inner = str ''b'', outer = str ''c''\<rparr>]
   \<and> (s \<noteq> [] \<and> String_split (sepRegex (str '','')) s = ts1 @ t # ts2 \<and> 2 \<le> count_list t 0x3A
        \<longrightarrow> parseExportPartsAttribute (Some s) = exportPartsLoop (ts1 @ ts2) [])"
proof (intro conjI ballI impI)
  fix p
  assume p: "p \<in> set (parseExportPartsAttribute a)"
  from parseExportPartsAttribute_free [OF p, of "inner p"]
  show "0x2C \<notin> set (inner p)" and "0x3A \<notin> set (inner p)"
    by simp_all
  from parseExportPartsAttribute_free [OF p, of "outer p"]
  show "0x2C \<notin> set (outer p)" and "0x3A \<notin> set (outer p)"
    by simp_all
next
  show "parseExportPartsAttribute (Some (str ''a,b:c'')) =
       [\<lparr>inner = str ''a'', outer = str ''a''\<rparr>, \<lparr>inner = str ''b'', outer = str ''c''\<rparr>]"
    by code_simp
next
  assume a: "s \<noteq> [] \<and> String_split (sepRegex (str '','')) s = ts1 @ t # ts2 \<and> 2 \<le> count_list t 0x3A"
  then have "parseExportPartsAttribute (Some s) = exportPartsLoop (ts1 @ t # ts2) []"
    by (simp add: parseExportPartsAttribute_def)
  also have "\<dots> = exportPartsLoop (t # ts2) (exportPartsLoop ts1 [])"
    by (rule exportPartsLoop_append)
  also from a have "\<dots> = exportPartsLoop ts2 (exportPartsLoop ts1 [])"
    by (intro exportPartsLoop_drop) simp
  also have "\<dots> = exportPartsLoop (ts1 @ ts2) []"
    by (rule exportPartsLoop_append [symmetric])
  finally show "parseExportPartsAttribute (Some s) = exportPartsLoop (ts1 @ ts2) []" .
qed

theorem C4_witness:
  "String_split (sepRegex (str '','')) (str ''a:b:c , d'') = [] @ str ''a:b:c'' # [str ''d'']
   \<and> parseExportPartsAttribute (Some (str ''a:b:c , d'')) = exportPartsLoop ([] @ [str ''d'']) []
   \<and> exportPartsLoop ([] @ [str ''d'']) [] = [\<lparr>inner = str ''d'', outer = str ''d''\<rparr>]
   \<and> 0x2C \<notin> set (inner \<lparr>inner = str ''d'', outer = str ''d''\<rparr>)"
proof -
  have sp: "String_split (sepRegex (str '','')) (str ''a:b:c , d'') = [] @ str ''a:b:c'' # [str ''d'']"
    by code_simp
  have ne: "str ''a:b:c , d'' \<noteq> []"
    by (simp add: str_def)
  have cnt: "2 \<le> count_list (str ''a:b:c'') (0x3A :: cu)"
    by (simp add: str_def)
  have ev: "exportPartsLoop ([] @ [str ''d'']) [] = [\<lparr>inner = str ''d'', outer = str ''d''\<rparr>]"
    by code_simp
  have "\<lparr>inner = str ''d'', outer = str ''d''\<rparr> \<in> set (parseExportPartsAttribute (Some (str ''a:b:c , d'')))"
    using C4_export_parts_attribute [of "Some (str ''a:b:c , d'')" "str ''a:b:c , d''" "[]" "str ''a:b:c''" "[str ''d'']"]
      sp ne cnt ev by simp
  with C4_export_parts_attribute [of "Some (str ''a:b:c , d'')" "str ''a:b:c , d''" "[]" "str ''a:b:c''" "[str ''d'']"]
    sp ne cnt ev show ?thesis
    by (metis append_Nil)
qed

text \<open>
  C5, as the claim states it, fails: the selector \<^verbatim>\<open>.my-class::part(foo)\<close> has a class
  selector and no element name in front of \<^verbatim>\<open>::part\<close>, and it is matched, with
  \<^verbatim>\<open>my-class\<close> taken for the custom element name.
\<close>

theorem C5_class_prefix_counterexample:
  "parsePartSelector (str ''.my-class::part(foo)'')
     = Some \<lparr>pre = Some (str ''.''), ce = Some (str ''my-class''), post = Some [],
             partList = Some (str ''foo'')\<rparr>"
  by code_simp

text \<open>
  C5, amended: \<^verbatim>\<open>parsePartSelector("x-a::part(foo)")\<close> is
  \<open>{pre: "", ce: "x-a", post: "", partList: "foo"}\<close>;
  \<^verbatim>\<open>parsePartSelector(".cls x-a::part(foo)")\<close> is a match with the prefix
  \<^verbatim>\<open>".cls "\<close>; \<^verbatim>\<open>::part(foo)\<close>, \<^verbatim>\<open>.cls::part(foo)\<close> and
  \<^verbatim>\<open>[open]::part(foo)\<close> give none. A selector is matched exactly when somewhere in it
  there are one or more lowercase letters, a hyphen and one or more word characters,
  followed by characters that are no white space, by \<^verbatim>\<open>::part(\<close>, by characters that end
  no line and by \<^verbatim>\<open>)\<close>; every other selector gives none. In a match \<open>ce\<close> is such a
  hyphenated name (whether it names an element, a class or an attribute), \<open>post\<close> is the
  text between it and \<^verbatim>\<open>::part(\<close>, \<open>pre\<close> is text in front of it and \<open>partList\<close> is the
  text between the parentheses (undefined when there is none).
\<close>

theorem C5_part_selector:
  "parsePartSelector (str ''x-a::part(foo)'')
     = Some \<lparr>pre = Some [], ce = Some (str ''x-a''), post = Some [], partList = Some (str ''foo'')\<rparr>
   \<and> parsePartSelector (str ''.cls x-a::part(foo)'')
     = Some \<lparr>pre = Some (str ''.cls ''), ce = Some (str ''x-a''), post = Some [],
             partList = Some (str ''foo'')\<rparr>
   \<and> parsePartSelector (str ''::part(foo)'') = None
   \<and> parsePartSelector (str ''.cls::part(foo)'') = None
   \<and> parsePartSelector (str ''[open]::part(foo)'') = None
   \<and> (parsePartSelector sel \<noteq> None \<longleftrightarrow>
        (\<exists>v a b w l t. sel = v @ a @ str ''-'' @ b @ w @ str ''::part('' @ l @ str '')'' @ t
           \<and> a \<noteq> [] \<and> list_all isLower a \<and> b \<noteq> [] \<and> list_all isWord b
           \<and> list_all notWhiteSpace w \<and> list_all isDot l))
   \<and> (parsePartSelector sel' = Some r \<longrightarrow>
        (\<exists>v u a b w l t. sel' = v @ u @ a @ str ''-'' @ b @ w @ str ''::part('' @ l @ str '')'' @ t
           \<and> list_all isDot u \<and> a \<noteq> [] \<and> list_all isLower a \<and> b \<noteq> [] \<and> list_all isWord b
           \<and> list_all notWhiteSpace w \<and> list_all isDot l
           \<and> pre r = Some u \<and> ce r = Some (a @ str ''-'' @ b) \<and> post r = Some w
           \<and> (partList r = Some l \<or> l = [] \<and> partList r = None)))"
proof -
  have 1: "parsePartSelector (str ''x-a::part(foo)'')
     = Some \<lparr>pre = Some [], ce = Some (str ''x-a''), post = Some [], partList = Some (str ''foo'')\<rparr>"
    by code_simp
  have 2: "parsePartSelector (str ''.cls x-a::part(foo)'')
     = Some \<lparr>pre = Some (str ''.cls ''), ce = Some (str ''x-a''), post = Some [],
             partList = Some (str ''foo'')\<rparr>"
    by code_simp
  have 3: "parsePartSelector (str ''::part(foo)'') = None"
    by code_simp
  have 4: "parsePartSelector (str ''.cls::part(foo)'') = None"
    by code_simp
  have 5: "parsePartSelector (str ''[open]::part(foo)'') = None"
    by code_simp
  from 1 2 3 4 5 parsePartSelector_matches [of sel] parsePartSelector_captures [of sel' r]
  show ?thesis
    by (intro conjI impI) assumption+
qed

theorem C5_witness:
  "parsePartSelector (str ''x-b.open::part(a b)'') = Some \<lparr>pre = Some [], ce = Some (str ''x-b''), post = Some (str ''.open''), partList = Some (str ''a b'')\<rparr>
   \<and> (\<exists>v u a b w l t. str ''x-b.open::part(a b)'' = v @ u @ a @ str ''-'' @ b @ w @ str ''::part('' @ l @ str '')'' @ t
           \<and> list_all isDot u \<and> a \<noteq> [] \<and> list_all isLower a \<and> b \<noteq> [] \<and> list_all isWord b
           \<and> list_all notWhiteSpace w \<and> list_all isDot l
           \<and> pre \<lparr>pre = Some [], ce = Some (str ''x-b''), post = Some (str ''.open''), partList = Some (str ''a b'')\<rparr> = Some u
           \<and> ce \<lparr>pre = Some [], ce = Some (str ''x-b''), post = Some (str ''.open''), partList = Some (str ''a b'')\<rparr> = Some (a @ str ''-'' @ b)
           \<and> post \<lparr>pre = Some [], ce = Some (str ''x-b''), post = Some (str ''.open''), partList = Some (str ''a b'')\<rparr> = Some w
           \<and> (partList \<lparr>pre = Some [], ce = Some (str ''x-b''), post = Some (str ''.open''), partList = Some (str ''a b'')\<rparr> = Some l
               \<or> l = [] \<and> partList \<lparr>pre = Some [], ce = Some (str ''x-b''), post = Some (str ''.open''), partList = Some (str ''a b'')\<rparr> = None))"
proof -
  have e: "parsePartSelector (str ''x-b.open::part(a b)'') = Some \<lparr>pre = Some [], ce = Some (str ''x-b''), post = Some (str ''.open''), partList = Some (str ''a b'')\<rparr>"
    by code_simp
  from C5_part_selector [of "[]" "str ''x-b.open::part(a b)''" "\<lparr>pre = Some [], ce = Some (str ''x-b''), post = Some (str ''.open''), partList = Some (str ''a b'')\<rparr>"]
  have "parsePartSelector (str ''x-b.open::part(a b)'') = Some \<lparr>pre = Some [], ce = Some (str ''x-b''), post = Some (str ''.open''), partList = Some (str ''a b'')\<rparr> \<longrightarrow>
      (\<exists>v u a b w l t. str ''x-b.open::part(a b)'' = v @ u @ a @ str ''-'' @ b @ w @ str ''::part('' @ l @ str '')'' @ t
           \<and> list_all isDot u \<and> a \<noteq> [] \<and> list_all isLower a \<and> b \<noteq> [] \<and> list_all isWord b
           \<and> list_all notWhiteSpace w \<and> list_all isDot l
           \<and> pre \<lparr>pre = Some [], ce = Some (str ''x-b''), post = Some (str ''.open''), partList = Some (str ''a b'')\<rparr> = Some u
           \<and> ce \<lparr>pre = Some [], ce = Some (str ''x-b''), post = Some (str ''.open''), partList = Some (str ''a b'')\<rparr> = Some (a @ str ''-'' @ b)
           \<and> post \<lparr>pre = Some [], ce = Some (str ''x-b''), post = Some (str ''.open''), partList = Some (str ''a b'')\<rparr> = Some w
           \<and> (partList \<lparr>pre = Some [], ce = Some (str ''x-b''), post = Some (str ''.open''), partList = Some (str ''a b'')\<rparr> = Some l
               \<or> l = [] \<and> partList \<lparr>pre = Some [], ce = Some (str ''x-b''), post = Some (str ''.open''), partList = Some (str ''a b'')\<rparr> = None))"
    by (elim conjE)
  from this e have "(\<exists>v u a b w l t. str ''x-b.open::part(a b)'' = v @ u @ a @ str ''-'' @ b @ w @ str ''::part('' @ l @ str '')'' @ t
           \<and> list_all isDot u \<and> a \<noteq> [] \<and> list_all isLower a \<and> b \<noteq> [] \<and> list_all isWord b
           \<and> list_all notWhiteSpace w \<and> list_all isDot l
           \<and> pre \<lparr>pre = Some [], ce = Some (str ''x-b''), post = Some (str ''.open''), partList = Some (str ''a b'')\<rparr> = Some u
           \<and> ce \<lparr>pre = Some [], ce = Some (str ''x-b''), post = Some (str ''.open''), partList = Some (str ''a b'')\<rparr> = Some (a @ str ''-'' @ b)
           \<and> post \<lparr>pre = Some [], ce = Some (str ''x-b''), post = Some (str ''.open''), partList = Some (str ''a b'')\<rparr> = Some w
           \<and> (partList \<lparr>pre = Some [], ce = Some (str ''x-b''), post = Some (str ''.open''), partList = Some (str ''a b'')\<rparr> = Some l
               \<or> l = [] \<and> partList \<lparr>pre = Some [], ce = Some (str ''x-b''), post = Some (str ''.open''), partList = Some (str ''a b'')\<rparr> = None))"
    by (rule mp)
  with e show ?thesis
    by (rule conjI)
qed

text \<open>
  C6: the code does not do what the claim says. With a non-empty new value
  \<^verbatim>\<open>onPartAttributeChanged\<close> calls \<^verbatim>\<open>addPartSpecifiersToElement\<close>, which appends
  to the \<^verbatim>\<open>shady-part\<close> attribute without clearing it: after the change of
  \<^verbatim>\<open>part\<close> from \<^verbatim>\<open>a1\<close> to \<^verbatim>\<open>a2\<close> the element still carries the specifier of
  \<^verbatim>\<open>a1\<close>. \<^verbatim>\<open>scopeAllHostParts\<close> on the same state clears before it rebuilds.
\<close>

theorem C6_stale_specifiers:
  "attributeAfter (partChanged example) 3 (str ''part'') = Some (Some (str ''a2''))
   \<and> attributeAfter (partChanged example) 3 (str ''shady-part'')
       = Some (Some (str ''document_x-a_a1 document_x-a_a2''))
   \<and> attributeAfter (partChangedRescoped example) 3 (str ''shady-part'')
       = Some (Some (str ''document_x-a_a2''))"
  by code_simp

text \<open>
  C7: when \<^verbatim>\<open>scopeAllHostParts(host)\<close> has returned, a second call on the state it
  left returns too, and leaves every attribute of every element, the \<^verbatim>\<open>shady-part\<close>
  attribute of every descendant among them, with the value it had after the first call.
\<close>

theorem C7_rescoping_idempotent:
  assumes "scopeAllHostParts s h = Some (Ok s1)"
  shows "\<exists>s2. scopeAllHostParts s1 h = Some (Ok s2) \<and> attributes s2 = attributes s1"
proof (cases "\<exists>sr hs m. shadowRoot s h = Some sr \<and> querySelectorAll s sr (str ''part'') \<noteq> []
    \<and> scopeForRoot s (rootNode s h) = Some hs \<and> getExportPartsMap s h = Some (Ok m)")
  case False
  with assms have "s1 = s"
    by (auto simp: scopeAllHostParts_def Let_def split: option.splits if_splits result.splits)
  with assms show ?thesis by simp
next
  case True
  then obtain sr hs m where sr: "shadowRoot s h = Some sr"
    and nodes: "querySelectorAll s sr (str ''part'') \<noteq> []"
    and hs: "scopeForRoot s (rootNode s h) = Some hs"
    and m: "getExportPartsMap s h = Some (Ok m)"
    by blast
  let ?ps = "querySelectorAll s sr (str ''part'')"
  let ?sc = "localName s h"
  from assms sr nodes hs m have run1: "forEach (scopePartNode h hs ?sc m) ?ps s = Ok s1"
    by (simp add: scopeAllHostParts_def Let_def)
  have st: "sameTree s s1"
    using forEach_scopePartNode_sameTree [of s h hs ?sc m ?ps] by (simp add: Ok_stateOf [OF run1])
  then have same: "shadowRoot s1 = shadowRoot s" "rootNode s1 = rootNode s"
    "localName s1 = localName s" "scopeForRoot s1 = scopeForRoot s"
    by (simp_all add: scopeForRoot_sameTree) (simp_all add: sameTree_def)
  have ps: "querySelectorAll s1 sr (str ''part'') = ?ps"
    using st part_neq_shady by (rule querySelectorAll_sameTree)
  have m1: "getExportPartsMap s1 h = Some (Ok m)"
    using m st by (rule getExportPartsMap_sameTree)
  from st part_neq_shady have part: "attributes s1 e (str ''part'') = attributes s e (str ''part'')" for e
    by (simp add: sameTree_def)
  from run1 have "\<forall>p \<in> set ?ps. list_all (\<lambda>pn. getProperty m pn \<noteq> Inherited)
      (parsePartAttribute (attributes s p (str ''part'')))"
    using forEach_scopePartNode_returns [of h hs ?sc m ?ps s] by blast
  then have "\<exists>y. forEach (scopePartNode h hs ?sc m) ?ps s1 = Ok y"
    unfolding forEach_scopePartNode_returns by (simp add: part)
  then obtain s2 where run2': "forEach (scopePartNode h hs ?sc m) ?ps s1 = Ok s2"
    by blast
  have run2: "scopeAllHostParts s1 h = Some (Ok s2)"
    using sr nodes hs m1 by (simp add: scopeAllHostParts_def Let_def same ps run2')
  define f where "f pn = (case cachedId s2 h hs ?sc pn of Some j \<Rightarrow> j | None \<Rightarrow> [])" for pn
  have l2: "learns h hs ?sc s1 s2"
    using forEach_scopePartNode_learns [of h hs ?sc s1 m ?ps] by (simp add: Ok_stateOf [OF run2'])
  have a2: "attributes s2 = rescoped (hasRulesAt s1 hs ?sc) f hs ?sc m ?ps (attributes s1)"
    using run2' by (rule forEach_scopePartNode_attributes) (simp add: f_def)
  have a1: "attributes s1 = rescoped (hasRulesAt s hs ?sc) f hs ?sc m ?ps (attributes s)"
    using run1
  proof (rule forEach_scopePartNode_attributes)
    fix pn j
    assume "cachedId s1 h hs ?sc pn = Some j"
    with l2 have "cachedId s2 h hs ?sc pn = Some j"
      by (simp add: learns_def)
    then show "f pn = j"
      by (simp add: f_def)
  qed
  have "hasRulesAt s1 = hasRulesAt s"
    using st by (rule hasRulesAt_sameTree)
  with a2 have "attributes s2
      = rescoped (hasRulesAt s hs ?sc) f hs ?sc m ?ps (attributes s1)"
    by simp
  also have "\<dots> = rescoped (hasRulesAt s hs ?sc) f hs ?sc m ?ps
          (rescoped (hasRulesAt s hs ?sc) f hs ?sc m ?ps (attributes s))"
    by (simp only: a1)
  also have "\<dots> = rescoped (hasRulesAt s hs ?sc) f hs ?sc m ?ps (attributes s)"
    by (rule rescoped_idem)
  also have "\<dots> = attributes s1"
    by (rule a1 [symmetric])
  finally have "attributes s2 = attributes s1" .
  with run2 show ?thesis by blast
qed

theorem C7_witness:
  "\<exists>s1 s2. scopeAllHostParts exampleStyled 7 = Some (Ok s1)
      \<and> scopeAllHostParts s1 7 = Some (Ok s2)
      \<and> attributes s2 = attributes s1
      \<and> getAttribute s1 9 (str ''shady-part'')
          = Some (str ''x-b_x-c_c1_0 x-a_x-b_b2 document_x-a_a3'')"
proof -
  have "attributeAfter (scopeAllHostParts exampleStyled 7) 9 (str ''shady-part'')
      = Some (Some (str ''x-b_x-c_c1_0 x-a_x-b_b2 document_x-a_a3''))"
    by code_simp
  then obtain s1 where s1: "scopeAllHostParts exampleStyled 7 = Some (Ok s1)"
    and a: "getAttribute s1 9 (str ''shady-part'')
      = Some (str ''x-b_x-c_c1_0 x-a_x-b_b2 document_x-a_a3'')"
    by (auto simp: attributeAfter_def split: option.splits result.splits)
  from C7_rescoping_idempotent [OF s1] s1 a show ?thesis
    by blast
qed




text \<open>
  C9: when the scope of the host's root is undefined (\<^verbatim>\<open>scopeForRoot\<close> returns nothing),
  \<^verbatim>\<open>scopeAllHostParts\<close> returns and leaves the whole state, and with it the
  \<^verbatim>\<open>shady-part\<close> attribute of every element, as it was.
\<close>

theorem C9_missing_scope_aborts:
  "scopeForRoot s (rootNode s h) = None \<Longrightarrow> scopeAllHostParts s h = Some (Ok s)"
  by (simp add: scopeAllHostParts_def Let_def split: option.splits)

theorem C9_witness:
  "scopeForRoot detached (rootNode detached 1) = None
   \<and> shadowRoot detached 1 = Some 2
   \<and> querySelectorAll detached 2 (str ''part'') = [3]
   \<and> scopeAllHostParts detached 1 = Some (Ok detached)"
proof -
  have h: "scopeForRoot detached (rootNode detached 1) = None"
    by code_simp
  have "shadowRoot detached 1 = Some 2" "querySelectorAll detached 2 (str ''part'') = [3]"
    by code_simp+
  with h C9_missing_scope_aborts [OF h] show ?thesis by simp
qed


text \<open>
  C10: \<^verbatim>\<open>addPartSpecifier\<close>, \<^verbatim>\<open>removeAllPartSpecifiers\<close>, \<^verbatim>\<open>scopeAllHostParts\<close>
  and \<^verbatim>\<open>onPartAttributeChanged\<close> leave every attribute other than \<^verbatim>\<open>shady-part\<close>,
  of every element, with the value it had.
\<close>

theorem C10_only_shady_part_written:
  "name \<noteq> str ''shady-part'' \<longrightarrow>
     getAttribute (addPartSpecifier s el x) e name = getAttribute s e name
   \<and> getAttribute (removeAllPartSpecifiers s el) e name = getAttribute s e name
   \<and> (scopeAllHostParts s h = Some (Ok s1) \<longrightarrow> getAttribute s1 e name = getAttribute s e name)
   \<and> (onPartAttributeChanged s el old new = Some (Ok s2) \<longrightarrow>
        getAttribute s2 e name = getAttribute s e name)
   \<and> (scopeAllHostParts s h = Some (TypeError s3) \<longrightarrow> getAttribute s3 e name = getAttribute s e name)
   \<and> (onPartAttributeChanged s el old new = Some (TypeError s4) \<longrightarrow>
        getAttribute s4 e name = getAttribute s e name)"
proof
  assume n: "name \<noteq> str ''shady-part''"
  have scoped: "getAttribute (stateOf r) e name = getAttribute s e name"
    if "scopeAllHostParts s h = Some r" for r
    using scopeAllHostParts_other [OF n that] by (simp add: getAttribute_def)
  have changed: "getAttribute (stateOf r) e name = getAttribute s e name"
    if "onPartAttributeChanged s el old new = Some r" for r
  proof (cases "new = None \<or> new = Some []")
    case True
    with that have "r = Ok (removeAllPartSpecifiers s el)"
      by (auto simp: onPartAttributeChanged_def)
    then show ?thesis
      by (simp add: stateOf_def getAttribute_def removeAllPartSpecifiers_other n)
  next
    case False
    with that have "addPartSpecifiersToElement s el (parsePartAttribute new) = Some r"
      by (simp add: onPartAttributeChanged_def)
    from addPartSpecifiersToElement_other [OF n this] show ?thesis
      by (simp add: getAttribute_def)
  qed
  from scoped [of "Ok s1"] scoped [of "TypeError s3"] changed [of "Ok s2"] changed [of "TypeError s4"]
  show "getAttribute (addPartSpecifier s el x) e name = getAttribute s e name
   \<and> getAttribute (removeAllPartSpecifiers s el) e name = getAttribute s e name
   \<and> (scopeAllHostParts s h = Some (Ok s1) \<longrightarrow> getAttribute s1 e name = getAttribute s e name)
   \<and> (onPartAttributeChanged s el old new = Some (Ok s2) \<longrightarrow>
        getAttribute s2 e name = getAttribute s e name)
   \<and> (scopeAllHostParts s h = Some (TypeError s3) \<longrightarrow> getAttribute s3 e name = getAttribute s e name)
   \<and> (onPartAttributeChanged s el old new = Some (TypeError s4) \<longrightarrow>
        getAttribute s4 e name = getAttribute s e name)"
    by (simp add: stateOf_def getAttribute_def addPartSpecifier_other removeAllPartSpecifiers_other n)
qed


theorem C10_witness:
  "str ''part'' \<noteq> str ''shady-part''
   \<and> getAttribute (addPartSpecifier example 9 (str ''x'')) 9 (str ''part'') = Some (str ''c1'')
   \<and> getAttribute (removeAllPartSpecifiers example 9) 9 (str ''part'') = Some (str ''c1'')
   \<and> (\<exists>s1. scopeAllHostParts example 7 = Some (Ok s1)
          \<and> getAttribute s1 9 (str ''part'') = Some (str ''c1''))
   \<and> (\<exists>s2. onPartAttributeChanged example 9 None (Some (str ''c1'')) = Some (Ok s2)
          \<and> getAttribute s2 9 (str ''part'') = Some (str ''c1''))"
proof -
  have n: "str ''part'' \<noteq> str ''shady-part''"
    by code_simp
  have g: "getAttribute example 9 (str ''part'') = Some (str ''c1'')"
    by code_simp
  have "attributeAfter (scopeAllHostParts example 7) 9 (str ''part'') \<noteq> None"
    by code_simp
  then obtain s1 where s1: "scopeAllHostParts example 7 = Some (Ok s1)"
    by (auto simp: attributeAfter_def split: option.splits result.splits)
  have "attributeAfter (onPartAttributeChanged example 9 None (Some (str ''c1''))) 9 (str ''part'') \<noteq> None"
    by code_simp
  then obtain s2 where s2: "onPartAttributeChanged example 9 None (Some (str ''c1'')) = Some (Ok s2)"
    by (auto simp: attributeAfter_def split: option.splits result.splits)
  from n g s1 s2
    C10_only_shady_part_written [of "str ''part''" example 9 "str ''x''" 9 7 s1 None "Some (str ''c1'')" s2]
  show ?thesis
    by simp
qed

end
